theory Spec2Isabelle
  imports Main "HOL-Library.Sublist"
begin

section \<open>Python values and exceptions\<close>

text \<open>
  The pipeline is Python on top of pandas. Exceptions are values: a computation that can
  raise returns \<open>exn + 'a\<close>, with \<open>Inl\<close> the exception raised.
\<close>

datatype exn = KeyError string | TypeError | ValueError | UnknownTimeZoneError string

section \<open>The validity rule engine: \<open>check_logic\<close> (fraud\_check.py, lines 119-137)\<close>

text \<open>
  \<open>check_logic\<close> receives one row of the data frame and reads its flag columns with
  \<open>row['name']\<close>, which raises \<open>KeyError\<close> when the row has no such column. A row is a
  dictionary from column names to booleans.
\<close>

type_synonym row = "string \<rightharpoonup> bool"

definition getitem :: "row \<Rightarrow> string \<Rightarrow> exn + bool" where
  "getitem r k = (case r k of None \<Rightarrow> Inl (KeyError k) | Some b \<Rightarrow> Inr b)"

text \<open>
  Python's \<open>a and b\<close> evaluates \<open>b\<close> only when \<open>a\<close> is true, so a lookup on the right of a
  false operand is never made and cannot raise.
\<close>

definition py_and :: "exn + bool \<Rightarrow> exn + bool \<Rightarrow> exn + bool" where
  "py_and a b = (case a of Inl e \<Rightarrow> Inl e | Inr t \<Rightarrow> if t then b else Inr False)"

definition py_not :: "exn + bool \<Rightarrow> exn + bool" where
  "py_not a = (case a of Inl e \<Rightarrow> Inl e | Inr t \<Rightarrow> Inr (\<not> t))"

text \<open>\<open>if c: return v\<close> followed by the rest of the function body.\<close>

definition if_return :: "exn + bool \<Rightarrow> bool \<Rightarrow> exn + bool \<Rightarrow> exn + bool" where
  "if_return c v rest = (case c of Inl e \<Rightarrow> Inl e | Inr t \<Rightarrow> if t then Inr v else rest)"

definition check_logic :: "row \<Rightarrow> exn + bool" where
  "check_logic r =
     if_return
       (py_and (getitem r ''has_reward'') (py_and (getitem r ''is_success'')
         (py_and (getitem r ''has_trans_id'') (py_and (getitem r ''is_trans_paid'')
           (py_and (getitem r ''is_trans_new'') (py_and (getitem r ''tx_after_ref'')
             (py_and (getitem r ''same_month'') (py_and (getitem r ''is_member_active'')
               (py_and (getitem r ''is_account_active'') (getitem r ''is_granted''))))))))))
       True
    (if_return
       (py_and (getitem r ''is_pending_or_failed'') (py_not (getitem r ''has_reward'')))
       True
    (if_return
       (py_and (getitem r ''has_reward'') (py_not (getitem r ''is_success'')))
       False
    (if_return
       (py_and (getitem r ''has_reward'') (py_not (getitem r ''has_trans_id'')))
       False
    (if_return
       (py_and (py_not (getitem r ''has_reward'')) (py_and (getitem r ''has_trans_id'')
         (py_and (getitem r ''is_trans_paid'') (getitem r ''tx_after_ref''))))
       False
    (if_return
       (py_and (getitem r ''is_success'') (py_not (getitem r ''has_reward'')))
       False
    (if_return
       (py_and (getitem r ''has_trans_id'') (py_not (getitem r ''tx_after_ref'')))
       False
    (Inr False)))))))"

subsection \<open>The decision table of the specification\<close>

text \<open>
  The specification names eleven flags and lists eight rules, evaluated top to bottom, the
  first match deciding. The record carries the specification's flag names; \<open>row_of\<close> is
  the row that \<open>main\<close> builds for them, under the column names of the source.
\<close>

record flags =
  has_reward :: bool
  is_success :: bool
  is_pending_or_failed :: bool
  has_transaction :: bool
  is_transaction_paid :: bool
  is_transaction_new :: bool
  transaction_after_referral :: bool
  same_month :: bool
  member_active :: bool
  account_active :: bool
  reward_granted :: bool

definition flag_columns :: "string list" where
  "flag_columns =
     [''has_reward'', ''is_success'', ''is_pending_or_failed'', ''has_trans_id'',
      ''is_trans_paid'', ''is_trans_new'', ''tx_after_ref'', ''same_month'',
      ''is_member_active'', ''is_account_active'', ''is_granted'']"

definition row_of :: "flags \<Rightarrow> row" where
  "row_of f = map_of
     [(''has_reward'', has_reward f), (''is_success'', is_success f),
      (''is_pending_or_failed'', is_pending_or_failed f),
      (''has_trans_id'', has_transaction f), (''is_trans_paid'', is_transaction_paid f),
      (''is_trans_new'', is_transaction_new f),
      (''tx_after_ref'', transaction_after_referral f), (''same_month'', same_month f),
      (''is_member_active'', member_active f), (''is_account_active'', account_active f),
      (''is_granted'', reward_granted f)]"

definition rule1 :: "flags \<Rightarrow> bool" where
  "rule1 f \<longleftrightarrow> has_reward f \<and> is_success f \<and> has_transaction f \<and> is_transaction_paid f
     \<and> is_transaction_new f \<and> transaction_after_referral f \<and> same_month f
     \<and> member_active f \<and> account_active f \<and> reward_granted f"

definition rule2 :: "flags \<Rightarrow> bool" where
  "rule2 f \<longleftrightarrow> is_pending_or_failed f \<and> \<not> has_reward f"

definition rule3 :: "flags \<Rightarrow> bool" where
  "rule3 f \<longleftrightarrow> has_reward f \<and> \<not> is_success f"

definition rule4 :: "flags \<Rightarrow> bool" where
  "rule4 f \<longleftrightarrow> has_reward f \<and> \<not> has_transaction f"

definition rule5 :: "flags \<Rightarrow> bool" where
  "rule5 f \<longleftrightarrow> \<not> has_reward f \<and> has_transaction f \<and> is_transaction_paid f
     \<and> transaction_after_referral f"

definition rule6 :: "flags \<Rightarrow> bool" where
  "rule6 f \<longleftrightarrow> is_success f \<and> \<not> has_reward f"

definition rule7 :: "flags \<Rightarrow> bool" where
  "rule7 f \<longleftrightarrow> has_transaction f \<and> \<not> transaction_after_referral f"

text \<open>Rules 1 and 2 give VALID, rules 3 to 7 INVALID; rule 8 is the default.\<close>

definition decision_table :: "((flags \<Rightarrow> bool) \<times> bool) list" where
  "decision_table =
     [(rule1, True), (rule2, True), (rule3, False), (rule4, False), (rule5, False),
      (rule6, False), (rule7, False)]"

text \<open>
  \<open>first_match rs n f\<close> walks the rules from number \<open>n\<close> on and returns the number and the
  verdict of the first rule whose condition holds; when none holds it returns the number
  after the last rule, with the verdict INVALID.
\<close>

fun first_match :: "((flags \<Rightarrow> bool) \<times> bool) list \<Rightarrow> nat \<Rightarrow> flags \<Rightarrow> nat \<times> bool" where
  "first_match [] n f = (n, False)"
| "first_match ((p, v) # rs) n f = (if p f then (n, v) else first_match rs (Suc n) f)"

definition fired_rule :: "flags \<Rightarrow> nat" where
  "fired_rule f = fst (first_match decision_table 1 f)"

definition verdict :: "flags \<Rightarrow> bool" where
  "verdict f = snd (first_match decision_table 1 f)"

section \<open>Python strings\<close>

text \<open>
  A Python string is modelled as a list of characters with codes below 256, each standing
  for the code point of that number. \<open>strip\<close> removes the twelve characters below 256
  that \<open>str.isspace\<close> accepts: tab, line feed, vertical tab, form feed, carriage return,
  the four separators \<open>0x1C-0x1F\<close>, the space, the next-line character \<open>0x85\<close> and the
  no-break space \<open>0xA0\<close>. \<open>lower\<close> and \<open>upper\<close> exchange \<open>A-Z\<close> and \<open>a-z\<close> and leave every
  other character alone. The source uses them only to compare a text with words made of
  ASCII letters, and below 256 Python's \<open>lower\<close> sends no other character to an ASCII
  letter and its \<open>upper\<close> sends none to a letter of \<open>PAID\<close> or \<open>NEW\<close>, so each such
  comparison comes out as in Python. Characters above 255 are outside this model.
\<close>

definition ascii_uppercase :: string where
  "ascii_uppercase = ''ABCDEFGHIJKLMNOPQRSTUVWXYZ''"

definition ascii_lowercase :: string where
  "ascii_lowercase = ''abcdefghijklmnopqrstuvwxyz''"

definition lower_char :: "char \<Rightarrow> char" where
  "lower_char c =
     (case map_of (zip ascii_uppercase ascii_lowercase) c of None \<Rightarrow> c | Some d \<Rightarrow> d)"

definition upper_char :: "char \<Rightarrow> char" where
  "upper_char c =
     (case map_of (zip ascii_lowercase ascii_uppercase) c of None \<Rightarrow> c | Some d \<Rightarrow> d)"

definition lower :: "string \<Rightarrow> string" where
  "lower s = map lower_char s"

definition upper :: "string \<Rightarrow> string" where
  "upper s = map upper_char s"

definition whitespace :: string where
  "whitespace =
     [CHR 0x09, CHR 0x0A, CHR 0x0B, CHR 0x0C, CHR 0x0D, CHR 0x1C, CHR 0x1D, CHR 0x1E,
      CHR 0x1F, CHR 0x20, CHR 0x85, CHR 0xA0]"

definition isspace :: "char \<Rightarrow> bool" where
  "isspace c \<longleftrightarrow> c \<in> set whitespace"

definition strip :: "string \<Rightarrow> string" where
  "strip s = rev (dropWhile isspace (rev (dropWhile isspace s)))"

text \<open>\<open>s.startswith(p)\<close>, \<open>s.endswith(p)\<close> and the substring test \<open>x in s\<close>.\<close>

fun startswith :: "string \<Rightarrow> string \<Rightarrow> bool" where
  "startswith s [] = True"
| "startswith [] (p # ps) = False"
| "startswith (c # s) (p # ps) = (c = p \<and> startswith s ps)"

definition endswith :: "string \<Rightarrow> string \<Rightarrow> bool" where
  "endswith s p = startswith (rev s) (rev p)"

fun contains :: "string \<Rightarrow> string \<Rightarrow> bool" where
  "contains [] x = (x = [])"
| "contains (c # s) x = (startswith (c # s) x \<or> contains s x)"

text \<open>\<open>str(n)\<close> of an integer: its decimal digits, with a minus sign when negative.\<close>

fun show_nat :: "nat \<Rightarrow> string" where
  "show_nat n =
     (if n < 10 then [''0123456789'' ! n]
      else show_nat (n div 10) @ [''0123456789'' ! (n mod 10)])"

declare show_nat.simps [simp del]

definition show_int :: "int \<Rightarrow> string" where
  "show_int i = (if i < 0 then CHR ''-'' # show_nat (nat (- i)) else show_nat (nat i))"

section \<open>Scalar values of a table cell\<close>

text \<open>
  A cell read from a CSV file is missing (\<open>NaN\<close>, \<open>None\<close>, \<open>pd.NA\<close>), a boolean, a number or
  a string. Numbers are integers here; a float reaches the string functions below only
  through \<open>str\<close>, so a float identifier such as \<open>123.0\<close> is the cell \<open>S ''123.0''\<close>.
  \<open>py_isna\<close> is \<open>pd.isna\<close> and \<open>py_str\<close> is \<open>str\<close> (and \<open>astype(str)\<close> on one cell), which
  prints a missing float as \<open>nan\<close>.
\<close>

datatype cell = NA | B bool | N int | S string

fun py_isna :: "cell \<Rightarrow> bool" where
  "py_isna NA = True"
| "py_isna (B b) = False"
| "py_isna (N n) = False"
| "py_isna (S s) = False"

fun py_str :: "cell \<Rightarrow> string" where
  "py_str NA = ''nan''"
| "py_str (B b) = (if b then ''True'' else ''False'')"
| "py_str (N n) = show_int n"
| "py_str (S s) = s"

section \<open>The identifier normalizer: \<open>clean_id\<close> (time.py, lines 45-49)\<close>

definition clean_id :: "cell \<Rightarrow> cell" where
  "clean_id val =
     (if py_isna val \<or> lower (py_str val) \<in> set [''nan'', ''null'', ''''] then NA
      else let val = strip (py_str val)
           in if endswith val ''.0'' then S (take (length val - 2) val) else S val)"

text \<open>
  A string is canonical when the normalizer has nothing left to do on it: no surrounding
  whitespace, no trailing \<open>.0\<close>, and not one of the three words for a missing value.
\<close>

definition canonical :: "string \<Rightarrow> bool" where
  "canonical r \<longleftrightarrow>
     strip r = r \<and> \<not> endswith r ''.0'' \<and> lower r \<notin> set [''nan'', ''null'', '''']"

section \<open>The referral source classifier: \<open>get_source_category\<close> (fraud\_check.py, lines 19-24)\<close>

definition get_source_category :: "cell \<Rightarrow> string" where
  "get_source_category source =
     (let s = lower (py_str source)
      in if list_ex (\<lambda>x. contains s x) [''user sign up'', ''app'', ''web'', ''online'']
         then ''Online''
         else if list_ex (\<lambda>x. contains s x) [''draft transaction'', ''lead'', ''walk'']
         then ''Offline''
         else ''Other'')"

subsection \<open>The classifier of the specification\<close>

text \<open>
  The specification's wording: lower-case the text and test whether it contains a keyword
  of the Online set, then of the Offline set, where a text contains a keyword when the
  keyword is a contiguous part of it (\<open>sublist\<close>).
\<close>

definition online_keywords :: "string set" where
  "online_keywords = {''user sign up'', ''app'', ''web'', ''online''}"

definition offline_keywords :: "string set" where
  "offline_keywords = {''draft transaction'', ''lead'', ''walk''}"

definition spec_category :: "string \<Rightarrow> string" where
  "spec_category text =
     (if \<exists>k\<in>online_keywords. sublist k (lower text) then ''Online''
      else if \<exists>k\<in>offline_keywords. sublist k (lower text) then ''Offline''
      else ''Other'')"

section \<open>The status flags (fraud\_check.py, lines 83-85)\<close>

text \<open>
  \<open>Series.str.contains(pat, case=False, regex=True)\<close> searches each text for the regular
  expression \<open>pat\<close>, ignoring case. Both patterns of the source are alternations
  \<open>w1|w2|...\<close> of plain words, so the search succeeds when one of the words occurs in the
  text, letters compared without regard to case. \<open>alternatives\<close> splits a pattern at its
  bars.
\<close>

fun alternatives :: "string \<Rightarrow> string list" where
  "alternatives [] = [[]]"
| "alternatives (c # cs) =
     (if c = CHR ''|'' then [] # alternatives cs
      else (case alternatives cs of [] \<Rightarrow> [[c]] | w # ws \<Rightarrow> (c # w) # ws))"

definition str_contains_nocase :: "string \<Rightarrow> string \<Rightarrow> bool" where
  "str_contains_nocase s pat =
     list_ex (\<lambda>w. contains (lower s) (lower w)) (alternatives pat)"

definition status_is_success :: "cell \<Rightarrow> bool" where
  "status_is_success status_name =
     str_contains_nocase (py_str status_name) ''Berhasil|Success''"

definition status_is_pending_or_failed :: "cell \<Rightarrow> bool" where
  "status_is_pending_or_failed status_name =
     str_contains_nocase (py_str status_name) ''Menunggu|Tidak|Fail|Pending''"

section \<open>The local-time converter: \<open>to_local\<close> (time.py, lines 36-42)\<close>

text \<open>
  A pandas timestamp is \<open>NaT\<close>, a naive wall-clock reading, or an instant on the UTC time
  line together with a zone. Times are integers (a count of time units since the epoch);
  a zone is the function that gives its UTC offset at an instant. The zone database of
  \<open>pytz\<close> is a parameter: \<open>pytz.timezone(name)\<close> raises \<open>UnknownTimeZoneError\<close> for a name
  the database does not have. The arguments are those the pipeline passes: a timestamp
  or \<open>NaT\<close> out of \<open>pd.to_datetime\<close>, and a cell of the timezone column.
  timezone\_cinversion.py holds the same \<open>to_local\<close>, \<open>clean_id\<close> and
  \<open>get_source_category\<close>, letter for letter.
\<close>

type_synonym zone = "int \<Rightarrow> int"

datatype timestamp = NaT | Naive int | Aware int zone

definition utc :: zone where
  "utc i = 0"

fun is_NaT :: "timestamp \<Rightarrow> bool" where
  "is_NaT NaT = True"
| "is_NaT (Naive w) = False"
| "is_NaT (Aware i z) = False"

fun tzinfo :: "timestamp \<Rightarrow> zone option" where
  "tzinfo NaT = None"
| "tzinfo (Naive w) = None"
| "tzinfo (Aware i z) = Some z"

text \<open>\<open>ts.tz_localize("UTC")\<close>: a naive reading is taken as UTC; an aware timestamp is refused.\<close>

fun tz_localize_utc :: "timestamp \<Rightarrow> exn + timestamp" where
  "tz_localize_utc NaT = Inr NaT"
| "tz_localize_utc (Naive w) = Inr (Aware w utc)"
| "tz_localize_utc (Aware i z) = Inl TypeError"

text \<open>\<open>ts.astimezone(z)\<close>: the same instant in another zone; a naive timestamp is refused.\<close>

fun astimezone :: "timestamp \<Rightarrow> zone \<Rightarrow> exn + timestamp" where
  "astimezone NaT z = Inr NaT"
| "astimezone (Naive w) z = Inl TypeError"
| "astimezone (Aware i z') z = Inr (Aware i z)"

text \<open>\<open>ts.replace(tzinfo=None)\<close>: the wall-clock reading in the timestamp's zone.\<close>

fun replace_tzinfo_None :: "timestamp \<Rightarrow> timestamp" where
  "replace_tzinfo_None NaT = NaT"
| "replace_tzinfo_None (Naive w) = Naive w"
| "replace_tzinfo_None (Aware i z) = Naive (i + z i)"

definition pytz_timezone :: "(string \<Rightarrow> zone option) \<Rightarrow> string \<Rightarrow> exn + zone" where
  "pytz_timezone tzdb name =
     (case tzdb name of None \<Rightarrow> Inl (UnknownTimeZoneError name) | Some z \<Rightarrow> Inr z)"

text \<open>
  The \<open>try\<close> block rebinds \<open>ts\<close> before it looks the zone up, so the \<open>except\<close> branch strips
  the zone of the rebound timestamp when the failure comes after the rebinding, and of
  the argument when \<open>tz_localize\<close> itself fails. The bare \<open>except\<close> catches every exception.
\<close>

definition to_local :: "(string \<Rightarrow> zone option) \<Rightarrow> timestamp \<Rightarrow> cell \<Rightarrow> exn + timestamp" where
  "to_local tzdb ts tz =
     (if is_NaT ts \<or> py_isna tz \<or> lower (py_str tz) = ''nan'' then Inr NaT
      else
        (case (case tzinfo ts of None \<Rightarrow> tz_localize_utc ts | Some z \<Rightarrow> Inr ts) of
           Inl e \<Rightarrow> Inr (replace_tzinfo_None ts)
         | Inr ts' \<Rightarrow>
             (case pytz_timezone tzdb (py_str tz) of
                Inl e \<Rightarrow> Inr (replace_tzinfo_None ts')
              | Inr z \<Rightarrow>
                  (case astimezone ts' z of
                     Inl e \<Rightarrow> Inr (replace_tzinfo_None ts')
                   | Inr t \<Rightarrow> Inr (replace_tzinfo_None t)))))"

section \<open>Data frames\<close>

text \<open>
  A data frame is its list of column names and its rows, each row a dictionary from
  column names to cells; a column that a row does not hold reads as missing. \<open>df[k]\<close>
  raises \<open>KeyError\<close> when the frame has no column \<open>k\<close>, and \<open>df[k] = values\<close> raises
  \<open>ValueError\<close> when the number of values is not the number of rows. Sequencing of
  steps that may raise is \<open>andthen\<close>. Cells are compared as values; the dtype of a
  column, which makes pandas refuse to join a text column to a number column, is not
  modelled.
\<close>

type_synonym entry = "string \<rightharpoonup> cell"

record frame =
  columns :: "string list"
  rows :: "entry list"

definition andthen :: "exn + 'a \<Rightarrow> ('a \<Rightarrow> exn + 'b) \<Rightarrow> exn + 'b" where
  "andthen m f = (case m of Inl e \<Rightarrow> Inl e | Inr x \<Rightarrow> f x)"

definition cell_at :: "entry \<Rightarrow> string \<Rightarrow> cell" where
  "cell_at r k = (case r k of None \<Rightarrow> NA | Some c \<Rightarrow> c)"

definition getcol :: "frame \<Rightarrow> string \<Rightarrow> exn + cell list" where
  "getcol df k =
     (if k \<in> set (columns df) then Inr (map (\<lambda>r. cell_at r k) (rows df))
      else Inl (KeyError k))"

definition setcol :: "frame \<Rightarrow> string \<Rightarrow> cell list \<Rightarrow> exn + frame" where
  "setcol df k vs =
     (if length vs \<noteq> length (rows df) then Inl ValueError
      else Inr \<lparr>columns = (if k \<in> set (columns df) then columns df else columns df @ [k]),
                rows = map (\<lambda>(r, v). r(k \<mapsto> v)) (zip (rows df) vs)\<rparr>)"

text \<open>\<open>df[k] = v\<close> with a scalar \<open>v\<close> writes \<open>v\<close> into every row.\<close>

definition setcol_const :: "frame \<Rightarrow> string \<Rightarrow> cell \<Rightarrow> exn + frame" where
  "setcol_const df k v = setcol df k (replicate (length (rows df)) v)"

text \<open>\<open>df.empty\<close>: the frame has no columns or no rows.\<close>

definition frame_empty :: "frame \<Rightarrow> bool" where
  "frame_empty df \<longleftrightarrow> columns df = [] \<or> rows df = []"

text \<open>
  \<open>df.rename(columns=...)\<close> and \<open>df.columns = df.columns.str.strip()\<close> rename the columns
  by a function on names; a name the mapping does not mention stays.
\<close>

definition rename_columns :: "(string \<Rightarrow> string) \<Rightarrow> frame \<Rightarrow> frame" where
  "rename_columns f df =
     \<lparr>columns = map f (columns df),
      rows = map (\<lambda>r. map_of (map (\<lambda>c. (f c, cell_at r c)) (columns df))) (rows df)\<rparr>"

definition renaming :: "(string \<times> string) list \<Rightarrow> string \<Rightarrow> string" where
  "renaming m c = (case map_of m c of None \<Rightarrow> c | Some c' \<Rightarrow> c')"

text \<open>\<open>df[[c1, c2, ...]]\<close> keeps the listed columns and raises \<open>KeyError\<close> for a missing one.\<close>

definition select_columns :: "frame \<Rightarrow> string list \<Rightarrow> exn + frame" where
  "select_columns df cs =
     (case filter (\<lambda>c. c \<notin> set (columns df)) cs of
        [] \<Rightarrow> Inr \<lparr>columns = cs, rows = map (\<lambda>r. r |` set cs) (rows df)\<rparr>
      | c # _ \<Rightarrow> Inl (KeyError c))"

text \<open>\<open>df.dropna(subset=[k])\<close> drops the rows whose cell in column \<open>k\<close> is missing.\<close>

definition dropna :: "frame \<Rightarrow> string \<Rightarrow> exn + frame" where
  "dropna df k =
     (if k \<in> set (columns df)
      then Inr (df\<lparr>rows := filter (\<lambda>r. \<not> py_isna (cell_at r k)) (rows df)\<rparr>)
      else Inl (KeyError k))"

text \<open>
  \<open>df.drop_duplicates(subset=[k])\<close> keeps, for each value of column \<open>k\<close>, the first row
  that has it; \<open>seen\<close> holds the values met so far.
\<close>

fun keep_first :: "string \<Rightarrow> cell list \<Rightarrow> entry list \<Rightarrow> entry list" where
  "keep_first k seen [] = []"
| "keep_first k seen (r # rs) =
     (if cell_at r k \<in> set seen then keep_first k seen rs
      else r # keep_first k (cell_at r k # seen) rs)"

definition drop_duplicates :: "frame \<Rightarrow> string \<Rightarrow> exn + frame" where
  "drop_duplicates df k =
     (if k \<in> set (columns df) then Inr (df\<lparr>rows := keep_first k [] (rows df)\<rparr>)
      else Inl (KeyError k))"

text \<open>
  \<open>left.merge(right, left_on=lk, right_on=rk, how='left', suffixes=(sl, sr))\<close>. Every left
  row is paired with each right row that has the same key, in the order of the right
  table, and with a row of missing cells when there is none; two missing keys are equal.
  A column name that both tables have, other than a common key, gets the suffix of its
  side; with \<open>on=k\<close> (the case \<open>lk = rk\<close>) the key column appears once.
\<close>

definition left_join_rows ::
  "(entry \<Rightarrow> cell) \<Rightarrow> (entry \<Rightarrow> cell) \<Rightarrow> (entry \<Rightarrow> entry) \<Rightarrow> (entry \<Rightarrow> entry \<Rightarrow> entry)
     \<Rightarrow> entry list \<Rightarrow> entry list \<Rightarrow> entry list" where
  "left_join_rows lkey rkey unmatched matched ls rs =
     concat (map (\<lambda>l.
       (case filter (\<lambda>r. rkey r = lkey l) rs of
          [] \<Rightarrow> [unmatched l]
        | m # ms \<Rightarrow> map (matched l) (m # ms))) ls)"

definition merge_left ::
  "frame \<Rightarrow> frame \<Rightarrow> string \<Rightarrow> string \<Rightarrow> string \<times> string \<Rightarrow> exn + frame" where
  "merge_left left right lk rk sfx =
     (if lk \<notin> set (columns left) then Inl (KeyError lk)
      else if rk \<notin> set (columns right) then Inl (KeyError rk)
      else
        let shared = (\<lambda>c. c \<in> set (columns left) \<and> c \<in> set (columns right)
                          \<and> \<not> (lk = rk \<and> c = lk));
            lname = (\<lambda>c. if shared c then c @ fst sfx else c);
            rname = (\<lambda>c. if shared c then c @ snd sfx else c);
            rcols = filter (\<lambda>c. \<not> (lk = rk \<and> c = rk)) (columns right);
            lpart = (\<lambda>l. map (\<lambda>c. (lname c, cell_at l c)) (columns left));
            rpart = (\<lambda>r. map (\<lambda>c. (rname c, cell_at r c)) rcols);
            nopart = map (\<lambda>c. (rname c, NA)) rcols
        in Inr \<lparr>columns = map lname (columns left) @ map rname rcols,
                 rows = left_join_rows (\<lambda>l. cell_at l lk) (\<lambda>r. cell_at r rk)
                   (\<lambda>l. map_of (lpart l @ nopart)) (\<lambda>l r. map_of (lpart l @ rpart r))
                   (rows left) (rows right)\<rparr>)"

section \<open>The join assembler\<close>

subsection \<open>Cleaning and the user and transaction joins (time.py, lines 82-116)\<close>

text \<open>\<open>df[k] = df[k].apply(clean_id)\<close>.\<close>

definition apply_clean_id :: "frame \<Rightarrow> string \<Rightarrow> exn + frame" where
  "apply_clean_id df k = andthen (getcol df k) (\<lambda>c. setcol df k (map clean_id c))"

text \<open>
  Lines 84 and 94-95: a transaction table that is not empty has its headers stripped and
  the cells of its \<open>transaction_id\<close> column, when it has one, normalized.
\<close>

definition clean_transactions :: "frame \<Rightarrow> exn + frame" where
  "clean_transactions loaded =
     (let transactions = (if \<not> frame_empty loaded then rename_columns strip loaded
                          else loaded)
      in if \<not> frame_empty transactions \<and> ''transaction_id'' \<in> set (columns transactions)
         then apply_clean_id transactions ''transaction_id''
         else Inr transactions)"

text \<open>
  Lines 99-109. The user table is cut down to four columns, rows without a user id are
  dropped and one row per user id is kept, before it is joined to the referrals twice: on
  the referrer and on the referee.
\<close>

definition join_users :: "frame \<Rightarrow> frame \<Rightarrow> exn + frame" where
  "join_users ref users =
     andthen (select_columns users
        [''user_id'', ''timezone_homeclub'', ''membership_expired_date'', ''is_deleted''])
       (\<lambda>u. andthen (dropna u ''user_id'')
       (\<lambda>u. andthen (drop_duplicates u ''user_id'')
       (\<lambda>tz_map. andthen (merge_left ref tz_map ''referrer_id'' ''user_id'' (''_x'', ''_y''))
       (\<lambda>ref. andthen (Inr (rename_columns (renaming
           [(''timezone_homeclub'', ''referrer_tz''),
            (''membership_expired_date'', ''referrer_expiry''),
            (''is_deleted'', ''referrer_deleted'')]) ref))
       (\<lambda>ref. andthen (merge_left ref tz_map ''referee_id'' ''user_id'' ('''', ''_ref''))
       (\<lambda>ref. Inr (rename_columns (renaming
           [(''timezone_homeclub'', ''referee_tz'')]) ref)))))))"

text \<open>Line 112: \<open>final_tz\<close> is the referrer's zone, and the referee's where that is missing.\<close>

definition fill_final_tz :: "frame \<Rightarrow> exn + frame" where
  "fill_final_tz ref =
     andthen (getcol ref ''referrer_tz'')
       (\<lambda>a. andthen (getcol ref ''referee_tz'')
       (\<lambda>b. setcol ref ''final_tz'' (map (\<lambda>(x, y). if py_isna x then y else x) (zip a b))))"

text \<open>
  Lines 115-116: the merge with the transaction table, which by then has been through
  \<open>clean_transactions\<close>.
\<close>

definition join_transactions :: "frame \<Rightarrow> frame \<Rightarrow> exn + frame" where
  "join_transactions ref transactions =
     (if \<not> frame_empty transactions \<and> ''transaction_id'' \<in> set (columns ref)
      then merge_left ref transactions ''transaction_id'' ''transaction_id'' ('''', ''_trans'')
      else Inr ref)"

text \<open>
  Lines 82-116 in order, from the three tables as they were loaded: headers are stripped,
  the identifiers of referrals, users and transactions are normalized, and the joins
  follow.
\<close>

definition assemble_referrals :: "frame \<Rightarrow> frame \<Rightarrow> frame \<Rightarrow> exn + frame" where
  "assemble_referrals loaded_ref loaded_users loaded_transactions =
     andthen (apply_clean_id (rename_columns strip loaded_ref) ''referrer_id'')
       (\<lambda>ref. andthen (apply_clean_id ref ''referee_id'')
       (\<lambda>ref. andthen (apply_clean_id (rename_columns strip loaded_users) ''user_id'')
       (\<lambda>users. andthen (if ''transaction_id'' \<in> set (columns ref)
                          then apply_clean_id ref ''transaction_id'' else Inr ref)
       (\<lambda>ref. andthen (clean_transactions loaded_transactions)
       (\<lambda>transactions. andthen (join_users ref users)
       (\<lambda>ref. andthen (fill_final_tz ref)
       (\<lambda>ref. join_transactions ref transactions)))))))"

subsection \<open>Status and reward joins (fraud\_check.py, lines 45-71)\<close>

text \<open>
  A table whose file does not exist is \<open>None\<close>. The status table is renamed and cut down
  to its key and its description; its cells are joined as they were loaded.
\<close>

definition prepare_statuses :: "frame \<Rightarrow> exn + frame" where
  "prepare_statuses statuses =
     select_columns
       (rename_columns (renaming
          [(''id'', ''user_referral_status_id''), (''description'', ''status_name'')]) statuses)
       [''user_referral_status_id'', ''status_name'']"

definition join_statuses :: "frame \<Rightarrow> frame option \<Rightarrow> exn + frame" where
  "join_statuses df statuses_csv =
     (case statuses_csv of
        None \<Rightarrow> Inr df
      | Some loaded \<Rightarrow>
          let statuses = rename_columns strip loaded
          in if ''description'' \<in> set (columns statuses)
             then andthen (prepare_statuses statuses)
               (\<lambda>s. merge_left df s ''user_referral_status_id'' ''user_referral_status_id''
                      (''_x'', ''_y''))
             else Inr df)"

text \<open>The reward table loses its duplicate keys before it is joined.\<close>

definition join_rewards :: "frame \<Rightarrow> frame option \<Rightarrow> exn + frame" where
  "join_rewards df rewards_csv =
     (case rewards_csv of
        None \<Rightarrow> Inr df
      | Some loaded \<Rightarrow>
          let rewards = rename_columns strip loaded;
              rewards = (if ''user_referral_id'' \<in> set (columns rewards)
                         then rename_columns (renaming [(''user_referral_id'', ''id'')]) rewards
                         else rewards);
              join_key = (if ''referral_id'' \<in> set (columns df) then ''referral_id'' else ''id'')
          in if join_key \<in> set (columns df) \<and> join_key \<in> set (columns rewards)
             then andthen (drop_duplicates rewards join_key)
               (\<lambda>rewards. merge_left df rewards join_key join_key ('''', ''_reward''))
             else Inr df)"

text \<open>The number of rows of a result, for stating examples.\<close>

definition row_count :: "exn + frame \<Rightarrow> exn + nat" where
  "row_count res = (case res of Inl e \<Rightarrow> Inl e | Inr d \<Rightarrow> Inr (length (rows d)))"

text \<open>
  Example tables: one referral with transaction \<open>T1\<close>, a transaction table in which \<open>T1\<close>
  occurs twice, one user, and a reward table in which referral \<open>R1\<close> occurs twice.
\<close>

definition example_referrals :: frame where
  "example_referrals =
     \<lparr>columns = [''referral_id'', ''referrer_id'', ''referee_id'', ''transaction_id''],
      rows = [map_of [(''referral_id'', S ''R1''), (''referrer_id'', S ''U1''),
                      (''referee_id'', S ''U2''), (''transaction_id'', S ''T1'')]]\<rparr>"

definition example_transactions :: frame where
  "example_transactions =
     \<lparr>columns = [''transaction_id'', ''transaction_status''],
      rows = [map_of [(''transaction_id'', S ''T1''), (''transaction_status'', S ''PAID'')],
              map_of [(''transaction_id'', S ''T1''), (''transaction_status'', S ''PAID'')]]\<rparr>"

definition example_users :: frame where
  "example_users =
     \<lparr>columns = [''user_id'', ''timezone_homeclub'', ''membership_expired_date'',
                 ''is_deleted''],
      rows = [map_of [(''user_id'', S ''U1''), (''timezone_homeclub'', S ''Asia/Jakarta''),
                      (''membership_expired_date'', S ''2030-01-01''),
                      (''is_deleted'', B False)],
              map_of [(''user_id'', S ''U1''), (''timezone_homeclub'', S ''Asia/Jakarta''),
                      (''membership_expired_date'', S ''2031-01-01''),
                      (''is_deleted'', B False)]]\<rparr>"

definition example_rewards :: frame where
  "example_rewards =
     \<lparr>columns = [''referral_id'', ''reward_value''],
      rows = [map_of [(''referral_id'', S ''R1''), (''reward_value'', N 50)],
              map_of [(''referral_id'', S ''R1''), (''reward_value'', N 50)]]\<rparr>"

definition example_statuses :: frame where
  "example_statuses =
     \<lparr>columns = [''id'', ''description''],
      rows = [map_of [(''id'', N 1), (''description'', S ''Menunggu'')],
              map_of [(''id'', N 2), (''description'', S ''Berhasil'')]]\<rparr>"

text \<open>
  A table has unique keys in column \<open>k\<close> when no two of its rows have the same cell
  there; a table that could not be built has no rows to repeat.
\<close>

definition unique_keys :: "exn + frame \<Rightarrow> string \<Rightarrow> bool" where
  "unique_keys res k =
     (case res of Inl e \<Rightarrow> True | Inr t \<Rightarrow> distinct (map (\<lambda>r. cell_at r k) (rows t)))"

definition example_transactions_once :: frame where
  "example_transactions_once =
     \<lparr>columns = [''transaction_id'', ''transaction_status''],
      rows = [map_of [(''transaction_id'', S ''T1''), (''transaction_status'', S ''PAID'')],
              map_of [(''transaction_id'', S ''T2''), (''transaction_status'', S ''PAID'')]]\<rparr>"

definition example_joined :: frame where
  "example_joined =
     \<lparr>columns = [''referral_id'', ''user_referral_status_id''],
      rows = [map_of [(''referral_id'', S ''R1''), (''user_referral_status_id'', N 2)],
              map_of [(''referral_id'', S ''R2''), (''user_referral_status_id'', N 7)]]\<rparr>"

section \<open>Flag derivation and the report (fraud\_check.py, lines 36-140)\<close>

text \<open>
  What pandas brings from outside the program is a parameter. \<open>to_datetime\<close> is
  \<open>pd.to_datetime(column, errors='coerce')\<close> on a whole column: it raises, or it gives
  the times of the column, \<open>None\<close> for \<open>NaT\<close>, and tells whether the column carries a time
  zone. \<open>to_period_M\<close> gives the calendar month of a time; \<open>now\<close> is today's date, which
  carries no zone. The source converts the three date columns in place (lines 78-79)
  when they are present and reads the converted columns afterwards. Here
  \<open>convert_dates\<close> runs the three conversions at that place, so that a conversion that
  raises does so there, and each later read of a date column converts the same cells
  again.
\<close>

record datetimes =
  tz_aware :: bool
  times :: "int option list"

record env =
  to_datetime :: "cell list \<Rightarrow> exn + datetimes"
  to_period_M :: "int \<Rightarrow> int"
  now :: int

text \<open>Running a list of computations stops at the first exception.\<close>

fun sequence :: "(exn + 'a) list \<Rightarrow> exn + 'a list" where
  "sequence [] = Inr []"
| "sequence (x # xs) =
     (case x of Inl e \<Rightarrow> Inl e
      | Inr v \<Rightarrow> (case sequence xs of Inl e \<Rightarrow> Inl e | Inr vs \<Rightarrow> Inr (v # vs)))"

text \<open>Lines 36-42: the source category is computed when the input lacks it.\<close>

definition ensure_source_category :: "frame \<Rightarrow> exn + frame" where
  "ensure_source_category df =
     (if ''referral_source_category'' \<notin> set (columns df)
      then (if ''referral_source'' \<in> set (columns df)
            then andthen (getcol df ''referral_source'')
              (\<lambda>c. setcol df ''referral_source_category'' (map (\<lambda>x. S (get_source_category x)) c))
            else setcol_const df ''referral_source_category'' (S ''Unknown''))
      else Inr df)"

text \<open>Lines 54-55.\<close>

definition default_status_name :: "frame \<Rightarrow> exn + frame" where
  "default_status_name df =
     (if ''status_name'' \<notin> set (columns df)
      then setcol_const df ''status_name'' (S ''Unknown'')
      else Inr df)"

text \<open>Lines 74-75: \<open>reward_value\<close> is created as 0 when absent; missing cells become 0.\<close>

fun fillna_0 :: "cell \<Rightarrow> cell" where
  "fillna_0 NA = N 0"
| "fillna_0 (B b) = B b"
| "fillna_0 (N n) = N n"
| "fillna_0 (S s) = S s"

definition fill_reward_value :: "frame \<Rightarrow> exn + frame" where
  "fill_reward_value df =
     andthen (if ''reward_value'' \<notin> set (columns df)
              then setcol_const df ''reward_value'' (N 0) else Inr df)
       (\<lambda>df. andthen (getcol df ''reward_value'')
       (\<lambda>c. setcol df ''reward_value'' (map fillna_0 c)))"

text \<open>
  Line 82: \<open>reward_value > 0\<close>. A boolean counts as 0 or 1, a missing number compares
  false, and a string cannot be compared with a number.
\<close>

fun gt_zero :: "cell \<Rightarrow> exn + bool" where
  "gt_zero NA = Inr False"
| "gt_zero (B b) = Inr b"
| "gt_zero (N n) = Inr (0 < n)"
| "gt_zero (S s) = Inl TypeError"

definition flag_has_reward :: "frame \<Rightarrow> exn + frame" where
  "flag_has_reward df =
     andthen (getcol df ''reward_value'')
       (\<lambda>c. andthen (sequence (map gt_zero c))
       (\<lambda>bs. setcol df ''has_reward'' (map B bs)))"

text \<open>Lines 83-85.\<close>

definition flag_status :: "frame \<Rightarrow> exn + frame" where
  "flag_status df =
     andthen (getcol df ''status_name'')
       (\<lambda>c. andthen (setcol df ''is_success'' (map (\<lambda>x. B (status_is_success x)) c))
       (\<lambda>df. andthen (getcol df ''status_name'')
       (\<lambda>c. setcol df ''is_pending_or_failed''
               (map (\<lambda>x. B (status_is_pending_or_failed x)) c))))"

text \<open>Lines 78-79.\<close>

definition convert_if_present :: "env \<Rightarrow> frame \<Rightarrow> string \<Rightarrow> exn + unit" where
  "convert_if_present e df k =
     (if k \<in> set (columns df)
      then andthen (getcol df k) (\<lambda>c. andthen (to_datetime e c) (\<lambda>t. Inr ()))
      else Inr ())"

definition convert_dates :: "env \<Rightarrow> frame \<Rightarrow> exn + frame" where
  "convert_dates e df =
     andthen (convert_if_present e df ''referral_at_local'')
       (\<lambda>u. andthen (convert_if_present e df ''transaction_at_local'')
       (\<lambda>u. andthen (convert_if_present e df ''referrer_expiry'')
       (\<lambda>u. Inr df)))"

text \<open>A read of a date column after line 79.\<close>

definition read_dates :: "env \<Rightarrow> frame \<Rightarrow> string \<Rightarrow> exn + datetimes" where
  "read_dates e df k = andthen (getcol df k) (to_datetime e)"

text \<open>
  A comparison of two times is false when one of them is \<open>NaT\<close>. pandas refuses with a
  \<open>TypeError\<close> to compare a column that carries a zone with a column, or a date, that
  carries none.
\<close>

fun time_ge :: "int option \<Rightarrow> int option \<Rightarrow> bool" where
  "time_ge (Some a) (Some b) = (b \<le> a)"
| "time_ge None y = False"
| "time_ge (Some a) None = False"

definition dates_ge :: "datetimes \<Rightarrow> datetimes \<Rightarrow> exn + bool list" where
  "dates_ge a b =
     (if tz_aware a \<noteq> tz_aware b then Inl TypeError
      else Inr (map (\<lambda>(x, y). time_ge x y) (zip (times a) (times b))))"

definition dates_ge_now :: "datetimes \<Rightarrow> int \<Rightarrow> exn + bool list" where
  "dates_ge_now a today =
     (if tz_aware a then Inl TypeError
      else Inr (map (\<lambda>x. time_ge x (Some today)) (times a)))"

text \<open>Lines 87-90.\<close>

definition flag_transaction :: "env \<Rightarrow> frame \<Rightarrow> exn + frame" where
  "flag_transaction e df =
     andthen (getcol df ''transaction_id'')
       (\<lambda>c. andthen (setcol df ''has_trans_id''
                (map (\<lambda>x. B (\<not> py_isna x \<and> py_str x \<noteq> ''nan'')) c))
       (\<lambda>df. andthen (getcol df ''transaction_status'')
       (\<lambda>c. andthen (setcol df ''is_trans_paid'' (map (\<lambda>x. B (upper (py_str x) = ''PAID'')) c))
       (\<lambda>df. andthen (getcol df ''transaction_type'')
       (\<lambda>c. andthen (setcol df ''is_trans_new'' (map (\<lambda>x. B (upper (py_str x) = ''NEW'')) c))
       (\<lambda>df. andthen (read_dates e df ''transaction_at_local'')
       (\<lambda>tx. andthen (read_dates e df ''referral_at_local'')
       (\<lambda>rf. andthen (dates_ge tx rf)
       (\<lambda>bs. setcol df ''tx_after_ref'' (map B bs))))))))))"

text \<open>
  Lines 93-97: \<open>same_month\<close> starts as False in every row; where both times are present
  it becomes the comparison of their months.
\<close>

definition flag_same_month :: "env \<Rightarrow> frame \<Rightarrow> exn + frame" where
  "flag_same_month e df =
     andthen (setcol_const df ''same_month'' (B False))
       (\<lambda>df. andthen (read_dates e df ''transaction_at_local'')
       (\<lambda>tx. andthen (read_dates e df ''referral_at_local'')
       (\<lambda>rf. let mask = map (\<lambda>(t, r). t \<noteq> None \<and> r \<noteq> None) (zip (times tx) (times rf))
              in if list_ex (\<lambda>m. m) mask
                 then andthen (getcol df ''same_month'')
                   (\<lambda>old. setcol df ''same_month''
                      (map (\<lambda>(prev, t, r).
                         (case (t, r) of
                            (Some a, Some b) \<Rightarrow> B (to_period_M e a = to_period_M e b)
                          | _ \<Rightarrow> prev))
                         (zip old (zip (times tx) (times rf)))))
                 else Inr df)))"

text \<open>Lines 100-104.\<close>

definition flag_member_active :: "env \<Rightarrow> frame \<Rightarrow> exn + frame" where
  "flag_member_active e df =
     (if ''referrer_expiry'' \<in> set (columns df)
      then andthen (read_dates e df ''referrer_expiry'')
        (\<lambda>x. andthen (dates_ge_now x (now e))
        (\<lambda>bs. setcol df ''is_member_active'' (map B bs)))
      else setcol_const df ''is_member_active'' (B False))"

text \<open>
  Lines 106-116. \<open>x == False\<close> holds for the boolean False and for the number 0, and
  \<open>x == True\<close> for the boolean True and for the number 1.
\<close>

fun eq_bool :: "cell \<Rightarrow> bool \<Rightarrow> bool" where
  "eq_bool NA b = False"
| "eq_bool (B x) b = (x = b)"
| "eq_bool (N n) b = (n = (if b then 1 else 0))"
| "eq_bool (S s) b = False"

definition flag_account_active :: "frame \<Rightarrow> exn + frame" where
  "flag_account_active df =
     (if ''referrer_deleted'' \<in> set (columns df)
      then andthen (getcol df ''referrer_deleted'')
        (\<lambda>c. setcol df ''is_account_active''
                (map (\<lambda>x. B (eq_bool x False \<or> lower (py_str x) = ''false'')) c))
      else setcol_const df ''is_account_active'' (B True))"

definition flag_granted :: "frame \<Rightarrow> exn + frame" where
  "flag_granted df =
     (if ''is_reward_granted'' \<in> set (columns df)
      then andthen (getcol df ''is_reward_granted'')
        (\<lambda>c. setcol df ''is_granted''
                (map (\<lambda>x. B (eq_bool x True \<or> lower (py_str x) = ''true'')) c))
      else setcol_const df ''is_granted'' (B False))"

text \<open>Lines 74-116 in order.\<close>

definition derive_flags :: "env \<Rightarrow> frame \<Rightarrow> exn + frame" where
  "derive_flags e df =
     andthen (fill_reward_value df)
       (\<lambda>df. andthen (convert_dates e df)
       (\<lambda>df. andthen (flag_has_reward df)
       (\<lambda>df. andthen (flag_status df)
       (\<lambda>df. andthen (flag_transaction e df)
       (\<lambda>df. andthen (flag_same_month e df)
       (\<lambda>df. andthen (flag_member_active e df)
       (\<lambda>df. andthen (flag_account_active df) flag_granted)))))))"

text \<open>
  Line 140: \<open>check_logic\<close> is applied to every row; it sees the boolean cells of the row.
\<close>

definition flags_of_entry :: "entry \<Rightarrow> row" where
  "flags_of_entry r k = (case r k of Some (B b) \<Rightarrow> Some b | _ \<Rightarrow> None)"

definition apply_check_logic :: "frame \<Rightarrow> exn + frame" where
  "apply_check_logic df =
     andthen (sequence (map (\<lambda>r. check_logic (flags_of_entry r)) (rows df)))
       (\<lambda>vs. setcol df ''is_business_logic_valid'' (map B vs))"

definition fraud_check :: "env \<Rightarrow> frame \<Rightarrow> frame option \<Rightarrow> frame option \<Rightarrow> exn + frame" where
  "fraud_check e df statuses_csv rewards_csv =
     andthen (ensure_source_category df)
       (\<lambda>df. andthen (join_statuses df statuses_csv)
       (\<lambda>df. andthen (default_status_name df)
       (\<lambda>df. andthen (join_rewards df rewards_csv)
       (\<lambda>df. andthen (derive_flags e df) apply_check_logic))))"

text \<open>
  An example environment in which a time is a number of days (a month has thirty of
  them), a number converts to that time, anything else to \<open>NaT\<close>, and a column carries a
  zone when one of its cells is a text that ends in \<open>Z\<close>; and cleaned referral tables
  without and with the transaction columns, with a status name, and with a zoned date of
  expiry.
\<close>

definition example_env :: env where
  "example_env =
     \<lparr>to_datetime = (\<lambda>c. Inr
        \<lparr>tz_aware = list_ex (\<lambda>x. case x of S s \<Rightarrow> endswith s ''Z'' | _ \<Rightarrow> False) c,
         times = map (\<lambda>x. case x of N n \<Rightarrow> Some n | _ \<Rightarrow> None) c\<rparr>),
      to_period_M = (\<lambda>t. t div 30),
      now = 1000\<rparr>"

definition example_cleaned_no_transactions :: frame where
  "example_cleaned_no_transactions =
     \<lparr>columns = [''referral_id'', ''referral_source'', ''referral_at_local''],
      rows = [map_of [(''referral_id'', S ''R1''), (''referral_source'', S ''Lead''),
                      (''referral_at_local'', N 900)]]\<rparr>"

definition example_cleaned :: frame where
  "example_cleaned =
     \<lparr>columns = [''referral_id'', ''referral_source'', ''referral_at_local'',
                 ''transaction_id'', ''transaction_status'', ''transaction_type'',
                 ''transaction_at_local''],
      rows = [map_of [(''referral_id'', S ''R1''), (''referral_source'', S ''Lead''),
                      (''referral_at_local'', N 900), (''transaction_id'', S ''T1''),
                      (''transaction_status'', S ''Paid''), (''transaction_type'', S ''New''),
                      (''transaction_at_local'', N 905)]]\<rparr>"

definition example_ready :: frame where
  "example_ready =
     \<lparr>columns = [''referral_id'', ''referral_at_local'', ''transaction_id'',
                 ''transaction_status'', ''transaction_type'', ''transaction_at_local'',
                 ''status_name''],
      rows = [map_of [(''referral_id'', S ''R1''), (''referral_at_local'', N 900),
                      (''transaction_id'', S ''T1''), (''transaction_status'', S ''Paid''),
                      (''transaction_type'', S ''New''), (''transaction_at_local'', N 905),
                      (''status_name'', S ''Menunggu'')]]\<rparr>"

definition example_status_no_transactions :: frame where
  "example_status_no_transactions =
     \<lparr>columns = [''referral_id'', ''referral_at_local'', ''status_name''],
      rows = [map_of [(''referral_id'', S ''R1''), (''referral_at_local'', N 900),
                      (''status_name'', S ''Menunggu'')]]\<rparr>"

definition example_zoned_expiry :: frame where
  "example_zoned_expiry =
     \<lparr>columns = [''referral_id'', ''referral_at_local'', ''transaction_id'',
                 ''transaction_status'', ''transaction_type'', ''transaction_at_local'',
                 ''status_name'', ''referrer_expiry''],
      rows = [map_of [(''referral_id'', S ''R1''), (''referral_at_local'', N 900),
                      (''transaction_id'', S ''T1''), (''transaction_status'', S ''Paid''),
                      (''transaction_type'', S ''New''), (''transaction_at_local'', N 905),
                      (''status_name'', S ''Menunggu''),
                      (''referrer_expiry'', S ''2030-01-01T00:00:00Z'')]]\<rparr>"

text \<open>
  The columns that flag derivation reads without a test for their presence, in the order
  in which it reads them, and the columns it writes.
\<close>

definition required_columns :: "string list" where
  "required_columns =
     [''transaction_id'', ''transaction_status'', ''transaction_type'',
      ''transaction_at_local'', ''referral_at_local'']"

definition derived_columns :: "string list" where
  "derived_columns =
     [''reward_value'', ''has_reward'', ''is_success'', ''is_pending_or_failed'',
      ''has_trans_id'', ''is_trans_paid'', ''is_trans_new'', ''tx_after_ref'',
      ''same_month'', ''is_member_active'', ''is_account_active'', ''is_granted'']"

text \<open>
  \<open>keeps df d K\<close>: frame \<open>d\<close> has as many rows as \<open>df\<close> and the same columns with the same
  cells, except possibly for the columns named in \<open>K\<close>.
\<close>

definition keeps :: "frame \<Rightarrow> frame \<Rightarrow> string set \<Rightarrow> bool" where
  "keeps df d K \<longleftrightarrow>
     length (rows d) = length (rows df) \<and> (\<forall>k. k \<notin> K \<longrightarrow> getcol d k = getcol df k)"

text \<open>
  \<open>naive_dates e df k\<close>: column \<open>k\<close>, when the frame has it, converts without an exception
  to as many times as it has cells, and carries no zone.
\<close>

definition naive_dates :: "env \<Rightarrow> frame \<Rightarrow> string \<Rightarrow> bool" where
  "naive_dates e df k =
     (case getcol df k of
        Inl x \<Rightarrow> True
      | Inr c \<Rightarrow>
          (case to_datetime e c of
             Inl x \<Rightarrow> False
           | Inr t \<Rightarrow> \<not> tz_aware t \<and> length (times t) = length c))"

text \<open>A transaction table whose two keys differ as loaded and agree once normalized.\<close>

definition example_transactions_suffix :: frame where
  "example_transactions_suffix =
     \<lparr>columns = [''transaction_id'', ''transaction_status''],
      rows = [map_of [(''transaction_id'', S ''T1''), (''transaction_status'', S ''PAID'')],
              map_of [(''transaction_id'', S ''T1.0''), (''transaction_status'', S ''PAID'')]]\<rparr>"

text \<open>A small zone database for the examples: one zone, seven hours ahead of UTC.\<close>

definition example_tzdb :: "string \<Rightarrow> zone option" where
  "example_tzdb name = (if name = ''Asia/Jakarta'' then Some (\<lambda>i. 25200) else None)"

section \<open>Properties of the rule engine\<close>

lemma getitem_row_of:
  "getitem (row_of f) ''has_reward'' = Inr (has_reward f)"
  "getitem (row_of f) ''is_success'' = Inr (is_success f)"
  "getitem (row_of f) ''is_pending_or_failed'' = Inr (is_pending_or_failed f)"
  "getitem (row_of f) ''has_trans_id'' = Inr (has_transaction f)"
  "getitem (row_of f) ''is_trans_paid'' = Inr (is_transaction_paid f)"
  "getitem (row_of f) ''is_trans_new'' = Inr (is_transaction_new f)"
  "getitem (row_of f) ''tx_after_ref'' = Inr (transaction_after_referral f)"
  "getitem (row_of f) ''same_month'' = Inr (same_month f)"
  "getitem (row_of f) ''is_member_active'' = Inr (member_active f)"
  "getitem (row_of f) ''is_account_active'' = Inr (account_active f)"
  "getitem (row_of f) ''is_granted'' = Inr (reward_granted f)"
  by (simp_all add: getitem_def row_of_def)

lemma py_and_Inr [simp]: "py_and (Inr a) (Inr b) = Inr (a \<and> b)"
  by (simp add: py_and_def)

lemma py_not_Inr [simp]: "py_not (Inr a) = Inr (\<not> a)"
  by (simp add: py_not_def)

lemma if_return_Inr [simp]: "if_return (Inr c) v rest = (if c then Inr v else rest)"
  by (simp add: if_return_def)

lemma check_logic_row_of:
  "check_logic (row_of f) =
     Inr (if rule1 f then True else if rule2 f then True else if rule3 f then False
          else if rule4 f then False else if rule5 f then False else if rule6 f then False
          else if rule7 f then False else False)"
  unfolding check_logic_def getitem_row_of
  by (simp add: rule1_def rule2_def rule3_def rule4_def rule5_def rule6_def rule7_def)

lemma first_match_table:
  "first_match decision_table 1 f =
     (if rule1 f then (1, True) else if rule2 f then (2, True) else if rule3 f then (3, False)
      else if rule4 f then (4, False) else if rule5 f then (5, False)
      else if rule6 f then (6, False) else if rule7 f then (7, False) else (8, False))"
  by (simp add: decision_table_def numeral_eq_Suc)

lemma fired_rule_eq:
  "fired_rule f =
     (if rule1 f then 1 else if rule2 f then 2 else if rule3 f then 3 else if rule4 f then 4
      else if rule5 f then 5 else if rule6 f then 6 else if rule7 f then 7 else 8)"
  unfolding fired_rule_def first_match_table by simp

lemma verdict_eq: "verdict f \<longleftrightarrow> rule1 f \<or> rule2 f"
  unfolding verdict_def first_match_table by simp

lemma check_logic_cong:
  assumes "\<forall>k\<in>set flag_columns. r k = r' k"
  shows "check_logic r = check_logic r'"
proof -
  have "getitem r k = getitem r' k" if "k \<in> set flag_columns" for k
    using assms that by (simp add: getitem_def)
  then show ?thesis
    unfolding check_logic_def by (simp add: flag_columns_def)
qed

lemma row_of_flag_columns:
  assumes "set flag_columns \<subseteq> dom r"
  shows "\<exists>f. \<forall>k\<in>set flag_columns. r k = row_of f k"
proof -
  have d: "k \<in> set flag_columns \<Longrightarrow> \<exists>b. r k = Some b" for k
    using assms by auto
  obtain b1 where b1: "r ''has_reward'' = Some b1"
    using d [of "''has_reward''"] by (auto simp: flag_columns_def)
  obtain b2 where b2: "r ''is_success'' = Some b2"
    using d [of "''is_success''"] by (auto simp: flag_columns_def)
  obtain b3 where b3: "r ''is_pending_or_failed'' = Some b3"
    using d [of "''is_pending_or_failed''"] by (auto simp: flag_columns_def)
  obtain b4 where b4: "r ''has_trans_id'' = Some b4"
    using d [of "''has_trans_id''"] by (auto simp: flag_columns_def)
  obtain b5 where b5: "r ''is_trans_paid'' = Some b5"
    using d [of "''is_trans_paid''"] by (auto simp: flag_columns_def)
  obtain b6 where b6: "r ''is_trans_new'' = Some b6"
    using d [of "''is_trans_new''"] by (auto simp: flag_columns_def)
  obtain b7 where b7: "r ''tx_after_ref'' = Some b7"
    using d [of "''tx_after_ref''"] by (auto simp: flag_columns_def)
  obtain b8 where b8: "r ''same_month'' = Some b8"
    using d [of "''same_month''"] by (auto simp: flag_columns_def)
  obtain b9 where b9: "r ''is_member_active'' = Some b9"
    using d [of "''is_member_active''"] by (auto simp: flag_columns_def)
  obtain b10 where b10: "r ''is_account_active'' = Some b10"
    using d [of "''is_account_active''"] by (auto simp: flag_columns_def)
  obtain b11 where b11: "r ''is_granted'' = Some b11"
    using d [of "''is_granted''"] by (auto simp: flag_columns_def)
  let ?f = "\<lparr>has_reward = b1, is_success = b2, is_pending_or_failed = b3,
    has_transaction = b4, is_transaction_paid = b5, is_transaction_new = b6,
    transaction_after_referral = b7, same_month = b8, member_active = b9,
    account_active = b10, reward_granted = b11\<rparr>"
  have "\<forall>k\<in>set flag_columns. r k = row_of ?f k"
    using b1 b2 b3 b4 b5 b6 b7 b8 b9 b10 b11 by (simp add: flag_columns_def row_of_def)
  then show ?thesis ..
qed

lemma dom_row_of: "dom (row_of f) = set flag_columns"
  by (simp add: row_of_def flag_columns_def dom_map_of_conv_image_fst)

text \<open>
  Claim C1. On the row of any assignment of the eleven flags, \<open>check_logic\<close> returns the
  verdict of the specification's decision table read top to bottom with the first match
  winning: it returns True exactly when the first rule to match is rule 1 (the ten
  conjuncts of the perfect path) or rule 2 (pending or failed, and no reward), and False
  when the first rule to match is one of rules 3 to 7 or when no rule matches (rule 8).
\<close>

theorem check_logic_first_match:
  "check_logic (row_of f) = Inr (verdict f)
   \<and> (verdict f \<longleftrightarrow> fired_rule f = 1 \<or> fired_rule f = 2)
   \<and> (fired_rule f = 1 \<longleftrightarrow> rule1 f)
   \<and> (fired_rule f = 2 \<longleftrightarrow> \<not> rule1 f \<and> rule2 f)
   \<and> (fired_rule f = 8 \<longleftrightarrow>
        \<not> (rule1 f \<or> rule2 f \<or> rule3 f \<or> rule4 f \<or> rule5 f \<or> rule6 f \<or> rule7 f))
   \<and> 1 \<le> fired_rule f \<and> fired_rule f \<le> 8"
  by (simp add: check_logic_row_of verdict_eq fired_rule_eq)

text \<open>
  Claim C7. Rule evaluation is total and deterministic. On every row that has the eleven
  flag columns \<open>check_logic\<close> raises nothing and returns a boolean; this covers the rows of
  all \<open>2^11\<close> flag assignments; and two rows that agree on the eleven flag columns get the
  same verdict, so evaluating one flag combination twice gives the same result.
\<close>

theorem check_logic_total_deterministic:
  "(set flag_columns \<subseteq> dom r \<longrightarrow> (\<exists>b. check_logic r = Inr b))
   \<and> ((\<forall>k\<in>set flag_columns. r k = r' k) \<longrightarrow> check_logic r = check_logic r')
   \<and> set flag_columns \<subseteq> dom (row_of f)
   \<and> (check_logic (row_of f) = Inr True \<or> check_logic (row_of f) = Inr False)"
proof (intro conjI impI)
  assume "set flag_columns \<subseteq> dom r"
  then obtain g where "\<forall>k\<in>set flag_columns. r k = row_of g k"
    using row_of_flag_columns by blast
  then have "check_logic r = check_logic (row_of g)"
    by (rule check_logic_cong)
  then show "\<exists>b. check_logic r = Inr b"
    by (simp add: check_logic_row_of)
next
  assume "\<forall>k\<in>set flag_columns. r k = r' k"
  then show "check_logic r = check_logic r'"
    by (rule check_logic_cong)
next
  show "set flag_columns \<subseteq> dom (row_of f)"
    by (simp add: dom_row_of)
next
  show "check_logic (row_of f) = Inr True \<or> check_logic (row_of f) = Inr False"
    by (simp add: check_logic_row_of)
qed

theorem check_logic_total_deterministic_witness:
  "set flag_columns \<subseteq> dom [''has_reward'' \<mapsto> False, ''is_success'' \<mapsto> False,
       ''is_pending_or_failed'' \<mapsto> True, ''has_trans_id'' \<mapsto> False,
       ''is_trans_paid'' \<mapsto> False, ''is_trans_new'' \<mapsto> False, ''tx_after_ref'' \<mapsto> False,
       ''same_month'' \<mapsto> False, ''is_member_active'' \<mapsto> False,
       ''is_account_active'' \<mapsto> True, ''is_granted'' \<mapsto> False, ''referral_id'' \<mapsto> True]
   \<and> (\<exists>b. check_logic [''has_reward'' \<mapsto> False, ''is_success'' \<mapsto> False,
       ''is_pending_or_failed'' \<mapsto> True, ''has_trans_id'' \<mapsto> False,
       ''is_trans_paid'' \<mapsto> False, ''is_trans_new'' \<mapsto> False, ''tx_after_ref'' \<mapsto> False,
       ''same_month'' \<mapsto> False, ''is_member_active'' \<mapsto> False,
       ''is_account_active'' \<mapsto> True, ''is_granted'' \<mapsto> False, ''referral_id'' \<mapsto> True]
         = Inr b)
   \<and> map (Map.empty :: row) flag_columns = map (Map.empty(''id'' \<mapsto> True)) flag_columns
   \<and> check_logic Map.empty = check_logic (Map.empty(''id'' \<mapsto> True))"
proof -
  let ?r = "[''has_reward'' \<mapsto> False, ''is_success'' \<mapsto> False,
       ''is_pending_or_failed'' \<mapsto> True, ''has_trans_id'' \<mapsto> False,
       ''is_trans_paid'' \<mapsto> False, ''is_trans_new'' \<mapsto> False, ''tx_after_ref'' \<mapsto> False,
       ''same_month'' \<mapsto> False, ''is_member_active'' \<mapsto> False,
       ''is_account_active'' \<mapsto> True, ''is_granted'' \<mapsto> False, ''referral_id'' \<mapsto> True]"
  have d: "set flag_columns \<subseteq> dom ?r"
    by (simp add: flag_columns_def)
  have e: "\<forall>k\<in>set flag_columns. (Map.empty :: row) k = (Map.empty(''id'' \<mapsto> True)) k"
    by (simp add: flag_columns_def)
  from check_logic_total_deterministic [of ?r undefined undefined] d
  have 1: "\<exists>b. check_logic ?r = Inr b" by blast
  from check_logic_total_deterministic [of Map.empty "Map.empty(''id'' \<mapsto> True)" undefined] e
  have 2: "check_logic Map.empty = check_logic (Map.empty(''id'' \<mapsto> True))" by blast
  have e': "map (Map.empty :: row) flag_columns = map (Map.empty(''id'' \<mapsto> True)) flag_columns"
    by (simp add: flag_columns_def)
  from d 1 e' 2 show ?thesis by blast
qed

text \<open>
  Claim C10. A rewarded referral is valid only through the perfect path: for every
  assignment of the eleven flags with \<open>has_reward\<close> true, \<open>check_logic\<close> returns True if and
  only if all ten conjuncts of rule 1 hold.
\<close>

theorem rewarded_valid_iff_perfect:
  "has_reward f \<Longrightarrow>
     (check_logic (row_of f) = Inr True \<longleftrightarrow>
        has_reward f \<and> is_success f \<and> has_transaction f \<and> is_transaction_paid f
        \<and> is_transaction_new f \<and> transaction_after_referral f \<and> same_month f
        \<and> member_active f \<and> account_active f \<and> reward_granted f)"
  by (simp add: check_logic_row_of rule1_def rule2_def)

theorem rewarded_valid_iff_perfect_witness:
  "has_reward \<lparr>has_reward = True, is_success = True, is_pending_or_failed = False,
       has_transaction = True, is_transaction_paid = True, is_transaction_new = True,
       transaction_after_referral = True, same_month = True, member_active = True,
       account_active = True, reward_granted = True\<rparr>
   \<and> check_logic (row_of \<lparr>has_reward = True, is_success = True, is_pending_or_failed = False,
       has_transaction = True, is_transaction_paid = True, is_transaction_new = True,
       transaction_after_referral = True, same_month = True, member_active = True,
       account_active = True, reward_granted = True\<rparr>) = Inr True
   \<and> has_reward \<lparr>has_reward = True, is_success = True, is_pending_or_failed = True,
       has_transaction = True, is_transaction_paid = True, is_transaction_new = True,
       transaction_after_referral = True, same_month = False, member_active = True,
       account_active = True, reward_granted = True\<rparr>
   \<and> check_logic (row_of \<lparr>has_reward = True, is_success = True, is_pending_or_failed = True,
       has_transaction = True, is_transaction_paid = True, is_transaction_new = True,
       transaction_after_referral = True, same_month = False, member_active = True,
       account_active = True, reward_granted = True\<rparr>) \<noteq> Inr True"
  using rewarded_valid_iff_perfect [of "\<lparr>has_reward = True, is_success = True,
       is_pending_or_failed = False,
       has_transaction = True, is_transaction_paid = True, is_transaction_new = True,
       transaction_after_referral = True, same_month = True, member_active = True,
       account_active = True, reward_granted = True\<rparr>"]
    rewarded_valid_iff_perfect [of "\<lparr>has_reward = True, is_success = True,
       is_pending_or_failed = True,
       has_transaction = True, is_transaction_paid = True, is_transaction_new = True,
       transaction_after_referral = True, same_month = False, member_active = True,
       account_active = True, reward_granted = True\<rparr>"]
  by simp

section \<open>Properties of the string functions, the normalizer, the classifier and the converter\<close>

lemmas str_eval = lower_def lower_char_def upper_def upper_char_def ascii_lowercase_def
  ascii_uppercase_def strip_def isspace_def whitespace_def endswith_def

lemma startswith_prefix: "startswith s p \<longleftrightarrow> prefix p s"
  by (induction s p rule: startswith.induct) auto

lemma contains_sublist: "contains s x \<longleftrightarrow> sublist x s"
  by (induction s) (auto simp: sublist_Cons_right startswith_prefix)

lemma endswith_suffix: "endswith s p \<longleftrightarrow> suffix p s"
  by (simp add: endswith_def startswith_prefix suffix_to_prefix)

lemma length_strip: "length (strip s) \<le> length s"
  unfolding strip_def
  by (metis length_dropWhile_le length_rev order_trans)

lemma strip_id: "\<forall>c\<in>set s. \<not> isspace c \<Longrightarrow> strip s = s"
  unfolding strip_def
  by (metis dropWhile_eq_self_iff hd_in_set rev_rev_ident set_rev)

lemma clean_id_canonical: "canonical r \<Longrightarrow> clean_id (S r) = S r"
  by (simp add: canonical_def clean_id_def)

lemma clean_id_fixed: "clean_id (S r) = S r \<Longrightarrow> canonical r"
proof -
  assume a: "clean_id (S r) = S r"
  then have l: "lower r \<notin> set [''nan'', ''null'', '''']"
    by (auto simp: clean_id_def split: if_splits)
  have ne: "\<not> endswith (strip r) ''.0''"
  proof
    assume e: "endswith (strip r) ''.0''"
    then have n: "strip r \<noteq> []" by (auto simp: endswith_def)
    from a l e have "take (length (strip r) - 2) (strip r) = r"
      by (simp add: clean_id_def Let_def split: if_splits)
    then have "length r = min (length (strip r)) (length (strip r) - 2)"
      by (metis length_take)
    with length_strip [of r] n show False by (cases "strip r") auto
  qed
  with a l have "strip r = r" by (simp add: clean_id_def Let_def split: if_splits)
  with ne l show ?thesis by (simp add: canonical_def)
qed

lemma clean_id_NA: "clean_id NA = NA"
  by (simp add: clean_id_def)

lemma clean_id_range: "clean_id x = NA \<or> (\<exists>r. clean_id x = S r)"
  by (simp add: clean_id_def Let_def)

lemma show_nat_digits: "set (show_nat n) \<subseteq> set ''0123456789''"
proof (induction n rule: show_nat.induct)
  case (1 n)
  have d: "k < 10 \<Longrightarrow> ''0123456789'' ! k \<in> set ''0123456789''" for k
    by (rule nth_mem) simp
  show ?case
  proof (cases "n < 10")
    case True
    then show ?thesis using d [of n] by (subst show_nat.simps) simp
  next
    case False
    have "n mod 10 < 10" by simp
    with False 1 d [of "n mod 10"] show ?thesis by (subst show_nat.simps) simp
  qed
qed

lemma show_nat_nonempty: "show_nat n \<noteq> []"
  by (subst show_nat.simps) simp

lemma plain_chars:
  "list_all (\<lambda>c. lower_char c = c \<and> \<not> isspace c) ''-0123456789''"
  by code_simp

lemma plain_canonical:
  assumes "s \<noteq> []" and "set s \<subseteq> set ''-0123456789''"
  shows "canonical s"
proof -
  have pl: "\<forall>c\<in>set s. lower_char c = c \<and> \<not> isspace c"
    using plain_chars assms(2) unfolding list_all_iff by blast
  then have sp: "\<forall>c\<in>set s. \<not> isspace c" by blast
  from pl have ls: "lower s = s" by (simp add: lower_def map_idI)
  have "\<not> suffix ''.0'' s"
  proof
    assume "suffix ''.0'' s"
    then have "set ''.0'' \<subseteq> set s" by (rule set_mono_suffix)
    with assms(2) show False by auto
  qed
  moreover have "s \<notin> set [''nan'', ''null'', '''']"
    using assms by auto
  ultimately show ?thesis
    using sp ls by (simp add: canonical_def strip_id endswith_suffix)
qed

lemma show_int_canonical: "canonical (show_int n)"
proof (rule plain_canonical)
  show "show_int n \<noteq> []" by (simp add: show_int_def show_nat_nonempty)
  have p: "set (show_nat k) \<subseteq> set ''-0123456789''" for k
    by (rule subset_trans [OF show_nat_digits set_subset_Cons])
  have m: "CHR ''-'' \<in> set ''-0123456789''"
    by (rule list.set_intros(1))
  show "set (show_int n) \<subseteq> set ''-0123456789''"
  proof (cases "n < 0")
    case True
    then have "show_int n = CHR ''-'' # show_nat (nat (- n))"
      by (simp add: show_int_def)
    then have "set (show_int n) = insert (CHR ''-'') (set (show_nat (nat (- n))))"
      by (simp only: list.set)
    then show ?thesis
      by (simp only: insert_subsetI [OF m p])
  next
    case False
    then have "show_int n = show_nat (nat n)"
      by (simp add: show_int_def)
    with p show ?thesis by (simp only:)
  qed
qed

lemma clean_id_N: "clean_id (N n) = S (show_int n)"
  using show_int_canonical [of n] by (simp add: clean_id_def canonical_def)

lemma clean_id_B: "clean_id (B b) = S (if b then ''True'' else ''False'')" "canonical ''True''" "canonical ''False''"
  by (simp_all add: clean_id_def canonical_def str_eval)

lemma clean_id_idem_iff:
  "clean_id (clean_id x) = clean_id x \<longleftrightarrow>
      clean_id x = NA \<or> (\<exists>r. clean_id x = S r \<and> canonical r)"
proof -
  from clean_id_range [of x] show ?thesis
  proof (elim disjE exE)
    assume "clean_id x = NA"
    then show ?thesis by (simp add: clean_id_NA)
  next
    fix r
    assume "clean_id x = S r"
    then show ?thesis using clean_id_canonical [of r] clean_id_fixed [of r] by auto
  qed
qed

text \<open>
  Claim C2, as amended. Applying the normalizer twice gives the same result as applying
  it once exactly when the first result is missing or a canonical string (no surrounding
  whitespace, no trailing \<open>.0\<close>, not \<open>nan\<close>, \<open>null\<close> or empty in any letter case). That is
  so for every missing, boolean and integer input, and for every string without
  whitespace whose remainder after the removal of one trailing \<open>.0\<close> is canonical. In
  particular \<open>normalize("123.0") = "123"\<close>, \<open>normalize("") = missing\<close> and
  \<open>normalize(missing) = missing\<close>.
\<close>

theorem clean_id_idempotent_canonical:
  "(clean_id (clean_id x) = clean_id x \<longleftrightarrow>
      clean_id x = NA \<or> (\<exists>r. clean_id x = S r \<and> canonical r))
   \<and> (x = NA \<or> x = B b \<or> x = N n \<longrightarrow> clean_id (clean_id x) = clean_id x)
   \<and> ((\<forall>c\<in>set s. \<not> isspace c)
        \<and> canonical (if endswith s ''.0'' then take (length s - 2) s else s)
      \<longrightarrow> clean_id (clean_id (S s)) = clean_id (S s))
   \<and> clean_id (S ''123.0'') = S ''123'' \<and> clean_id (S '''') = NA \<and> clean_id NA = NA"
proof (intro conjI impI)
  show "clean_id (clean_id x) = clean_id x \<longleftrightarrow>
      clean_id x = NA \<or> (\<exists>r. clean_id x = S r \<and> canonical r)"
    by (rule clean_id_idem_iff)
next
  assume "x = NA \<or> x = B b \<or> x = N n"
  then show "clean_id (clean_id x) = clean_id x"
    using show_int_canonical [of n]
    by (auto simp: clean_id_N clean_id_B clean_id_canonical clean_id_NA)
next
  assume a: "(\<forall>c\<in>set s. \<not> isspace c)
        \<and> canonical (if endswith s ''.0'' then take (length s - 2) s else s)"
  let ?r = "if endswith s ''.0'' then take (length s - 2) s else s"
  from a have "strip s = s" by (simp add: strip_id)
  then have "clean_id (S s) = NA \<or> clean_id (S s) = S ?r"
    by (simp add: clean_id_def Let_def)
  moreover have "clean_id NA = NA" by (rule clean_id_NA)
  moreover from a have "clean_id (S ?r) = S ?r" by (simp add: clean_id_canonical)
  ultimately show "clean_id (clean_id (S s)) = clean_id (S s)" by auto
next
  show "clean_id (S ''123.0'') = S ''123''" by code_simp
  show "clean_id (S '''') = NA" by code_simp
  show "clean_id NA = NA" by code_simp
qed

lemma digits_dot_no_space: "list_all (\<lambda>c. \<not> isspace c) ''123.0''"
  by code_simp

lemma canonical_123:
  "canonical (if endswith ''123.0'' ''.0'' then take (length ''123.0'' - 2) ''123.0''
              else ''123.0'')"
  by code_simp

theorem clean_id_idempotent_canonical_witness:
  "clean_id (clean_id (N 42)) = clean_id (N 42)
   \<and> list_all (\<lambda>c. \<not> isspace c) ''123.0''
   \<and> clean_id (clean_id (S ''123.0'')) = clean_id (S ''123.0'')
   \<and> clean_id (S ''123.0'') = S ''123''"
proof -
  have h: "\<forall>c\<in>set ''123.0''. \<not> isspace c"
    using digits_dot_no_space unfolding list_all_iff .
  from clean_id_idempotent_canonical [of "N 42" True 42 "''123.0''"] h canonical_123
    digits_dot_no_space
  show ?thesis by blast
qed

text \<open>
  Claim C2 as stated fails: the normalizer removes one trailing \<open>.0\<close>, so \<open>"1.0.0"\<close>
  becomes \<open>"1.0"\<close> and a second application gives \<open>"1"\<close>.
\<close>

theorem clean_id_not_idempotent: "clean_id (clean_id (S ''1.0.0'')) \<noteq> clean_id (S ''1.0.0'')"
  by code_simp

text \<open>
  Claim C3 says that the normalizer never returns an empty string. The source tests for
  \<open>nan\<close>, \<open>null\<close> and the empty string before it strips whitespace, so a cell that holds
  one space passes the test and is returned as the empty string, and \<open>nan\<close> between
  spaces is returned as the string \<open>nan\<close>.
\<close>

theorem clean_id_blank:
  "clean_id (S '' '') = S '''' \<and> clean_id (S '' nan '') = S ''nan''"
  by code_simp

lemma get_source_category_spec: "get_source_category (S text) = spec_category text"
  by (simp add: get_source_category_def spec_category_def online_keywords_def
      offline_keywords_def contains_sublist Let_def)

text \<open>
  Claim C5. For every input string the classifier lower-cases it and returns \<open>Online\<close>
  when it contains one of the Online keywords, else \<open>Offline\<close> when it contains one of the
  Offline keywords, else \<open>Other\<close>; a string with keywords of both sets is \<open>Online\<close>.
\<close>

theorem get_source_category_online_first:
  "get_source_category (S text) = spec_category text
   \<and> ((\<exists>k\<in>online_keywords. sublist k (lower text))
        \<and> (\<exists>k\<in>offline_keywords. sublist k (lower text))
      \<longrightarrow> get_source_category (S text) = ''Online'')"
  by (simp add: get_source_category_spec spec_category_def)

lemma walk_in_app:
  "contains (lower ''Walk In via App'') ''app''" "contains (lower ''Walk In via App'') ''walk''"
  by code_simp+

theorem get_source_category_online_first_witness:
  "(\<exists>k\<in>online_keywords. sublist k (lower ''Walk In via App''))
   \<and> (\<exists>k\<in>offline_keywords. sublist k (lower ''Walk In via App''))
   \<and> get_source_category (S ''Walk In via App'') = ''Online''"
proof -
  have a: "\<exists>k\<in>online_keywords. sublist k (lower ''Walk In via App'')"
    using walk_in_app(1) unfolding contains_sublist online_keywords_def by blast
  have b: "\<exists>k\<in>offline_keywords. sublist k (lower ''Walk In via App'')"
    using walk_in_app(2) unfolding contains_sublist offline_keywords_def by blast
  from get_source_category_online_first [of "''Walk In via App''"] a b
  show ?thesis by blast
qed

lemma alternatives_success: "alternatives ''Berhasil|Success'' = [''Berhasil'', ''Success'']"
  by simp

lemma alternatives_pending:
  "alternatives ''Menunggu|Tidak|Fail|Pending'' = [''Menunggu'', ''Tidak'', ''Fail'', ''Pending'']"
  by simp

lemma lower_keywords:
  "lower ''Berhasil'' = ''berhasil''" "lower ''Success'' = ''success''"
  "lower ''Menunggu'' = ''menunggu''" "lower ''Tidak'' = ''tidak''"
  "lower ''Fail'' = ''fail''" "lower ''Pending'' = ''pending''"
  by code_simp+

lemma status_is_success_iff:
  "status_is_success (S s) \<longleftrightarrow>
     sublist ''berhasil'' (lower s) \<or> sublist ''success'' (lower s)"
  unfolding status_is_success_def str_contains_nocase_def alternatives_success
  by (simp add: lower_keywords contains_sublist)

lemma status_is_pending_or_failed_iff:
  "status_is_pending_or_failed (S s) \<longleftrightarrow>
     sublist ''menunggu'' (lower s) \<or> sublist ''tidak'' (lower s)
     \<or> sublist ''fail'' (lower s) \<or> sublist ''pending'' (lower s)"
  unfolding status_is_pending_or_failed_def str_contains_nocase_def alternatives_pending
  by (simp add: lower_keywords contains_sublist)

lemma keyword_table:
  "list_all (\<lambda>w. (contains w ''berhasil'' \<or> contains w ''success'')
       \<and> \<not> (contains w ''menunggu'' \<or> contains w ''tidak'' \<or> contains w ''fail''
             \<or> contains w ''pending''))
     [''berhasil'', ''success'']"
  "list_all (\<lambda>w. \<not> (contains w ''berhasil'' \<or> contains w ''success'')
       \<and> (contains w ''menunggu'' \<or> contains w ''tidak'' \<or> contains w ''fail''
             \<or> contains w ''pending''))
     [''menunggu'', ''tidak'', ''fail'', ''pending'']"
  by code_simp+

lemma status_flags_both_iff:
  "status_is_success (S s) \<and> status_is_pending_or_failed (S s) \<longleftrightarrow>
     (sublist ''berhasil'' (lower s) \<or> sublist ''success'' (lower s))
     \<and> (sublist ''menunggu'' (lower s) \<or> sublist ''tidak'' (lower s)
          \<or> sublist ''fail'' (lower s) \<or> sublist ''pending'' (lower s))"
  by (simp only: status_is_success_iff status_is_pending_or_failed_iff)

text \<open>
  Claim C6. The claim is that no status name sets both \<open>is_success\<close> and
  \<open>is_pending_or_failed\<close>. The code does otherwise: each flag is an unanchored search, and
  the status name \<open>Tidak Berhasil\<close> (not successful), which the keyword \<open>Tidak\<close> is there
  to catch, also contains \<open>Berhasil\<close>. Both flags are true for it, so a rewarded row with
  that status is not rejected by rule 3 and, with the other flags true, is judged valid
  by rule 1.
\<close>

theorem status_flags_both_true:
  "status_is_success (S ''Tidak Berhasil'')
   \<and> status_is_pending_or_failed (S ''Tidak Berhasil'')
   \<and> check_logic (row_of
        \<lparr>has_reward = True,
         is_success = status_is_success (S ''Tidak Berhasil''),
         is_pending_or_failed = status_is_pending_or_failed (S ''Tidak Berhasil''),
         has_transaction = True, is_transaction_paid = True, is_transaction_new = True,
         transaction_after_referral = True, same_month = True, member_active = True,
         account_active = True, reward_granted = True\<rparr>) = Inr True"
proof -
  have a: "status_is_success (S ''Tidak Berhasil'')" by code_simp
  have b: "status_is_pending_or_failed (S ''Tidak Berhasil'')" by code_simp
  have c: "check_logic (row_of
        \<lparr>has_reward = True, is_success = True, is_pending_or_failed = True,
         has_transaction = True, is_transaction_paid = True, is_transaction_new = True,
         transaction_after_referral = True, same_month = True, member_active = True,
         account_active = True, reward_granted = True\<rparr>) = Inr True"
    by (simp add: check_logic_row_of rule1_def)
  from a b c show ?thesis by simp
qed

text \<open>
  Claim C4. \<open>to_local\<close> never raises. When the timestamp is missing, or the timezone is
  missing or is the string \<open>nan\<close> in any letter case, it returns the missing marker; and
  when the zone database does not know the timezone name it returns the original
  timestamp with its zone information stripped.
\<close>

theorem to_local_never_raises:
  "(\<exists>v. to_local tzdb ts tz = Inr v)
   \<and> (is_NaT ts \<or> py_isna tz \<or> lower (py_str tz) = ''nan''
        \<longrightarrow> to_local tzdb ts tz = Inr NaT)
   \<and> (\<not> is_NaT ts \<and> \<not> py_isna tz \<and> lower (py_str tz) \<noteq> ''nan''
        \<and> tzdb (py_str tz) = None
        \<longrightarrow> to_local tzdb ts tz = Inr (replace_tzinfo_None ts))"
  by (cases ts) (simp_all add: to_local_def pytz_timezone_def utc_def split: option.split)

theorem to_local_never_raises_witness:
  "is_NaT NaT \<and> to_local example_tzdb NaT (S ''Asia/Jakarta'') = Inr NaT
   \<and> \<not> is_NaT (Aware 1000 utc) \<and> \<not> py_isna (S ''Mars/Olympus'')
   \<and> lower (py_str (S ''Mars/Olympus'')) \<noteq> ''nan'' \<and> example_tzdb ''Mars/Olympus'' = None
   \<and> to_local example_tzdb (Aware 1000 utc) (S ''Mars/Olympus'') = Inr (Naive 1000)"
proof -
  have a: "lower (py_str (S ''Mars/Olympus'')) \<noteq> ''nan''" by code_simp
  have b: "example_tzdb (py_str (S ''Mars/Olympus'')) = None"
    by (simp add: example_tzdb_def)
  from to_local_never_raises [of example_tzdb NaT "S ''Asia/Jakarta''"]
  have c: "to_local example_tzdb NaT (S ''Asia/Jakarta'') = Inr NaT" by simp
  from to_local_never_raises [of example_tzdb "Aware 1000 utc" "S ''Mars/Olympus''"] a b
  have d: "to_local example_tzdb (Aware 1000 utc) (S ''Mars/Olympus'') = Inr (Naive 1000)"
    by (simp add: utc_def)
  from a b c d show ?thesis by simp
qed


section \<open>Properties of the joins\<close>

lemma andthen_Inr_iff: "andthen m f = Inr y \<longleftrightarrow> (\<exists>x. m = Inr x \<and> f x = Inr y)"
  by (cases m) (simp_all add: andthen_def)

lemma andthen_Inr [simp]: "andthen (Inr x) f = f x"
  by (simp add: andthen_def)

lemma andthen_Inl [simp]: "andthen (Inl e) f = Inl e"
  by (simp add: andthen_def)

lemma row_count_Inr_iff:
  "row_count res = Inr n \<longleftrightarrow> (\<exists>d. res = Inr d \<and> n = length (rows d))"
  by (cases res) (auto simp: row_count_def)

lemma filter_distinct_key:
  "distinct (map f xs) \<Longrightarrow> length (filter (\<lambda>r. f r = v) xs) \<le> 1"
proof (induction xs)
  case Nil
  then show ?case by simp
next
  case (Cons x xs)
  show ?case
  proof (cases "f x = v")
    case True
    from Cons.prems have "f x \<notin> f ` set xs"
      by simp
    with True have "\<forall>y\<in>set xs. f y \<noteq> v"
      by (metis imageI)
    then have "filter (\<lambda>r. f r = v) xs = []"
      by (simp add: filter_empty_conv)
    with True show ?thesis by simp
  next
    case False
    with Cons show ?thesis by simp
  qed
qed

lemma length_left_join_rows:
  assumes "distinct (map rkey rs)"
  shows "length (left_join_rows lkey rkey u h ls rs) = length ls"
proof -
  have one: "length (case filter (\<lambda>r. rkey r = v) rs of [] \<Rightarrow> [a] | m # ms \<Rightarrow> map g (m # ms)) = 1"
    for v a and g :: "entry \<Rightarrow> entry"
    using filter_distinct_key [OF assms, of v]
    by (cases "filter (\<lambda>r. rkey r = v) rs") simp_all
  show ?thesis
    unfolding left_join_rows_def by (induction ls) (simp_all add: one)
qed

lemma length_left_join_rows_ge: "length ls \<le> length (left_join_rows lkey rkey u h ls rs)"
  unfolding left_join_rows_def by (induction ls) (auto split: list.splits)

lemma merge_left_unique:
  assumes "merge_left left right lk rk sfx = Inr d"
    and "distinct (map (\<lambda>r. cell_at r rk) (rows right))"
  shows "length (rows d) = length (rows left)"
  using assms
  by (auto simp: merge_left_def Let_def length_left_join_rows split: if_splits)

lemma keep_first_keys:
  "distinct (map (\<lambda>r. cell_at r k) (keep_first k seen rs))
   \<and> (\<forall>r\<in>set (keep_first k seen rs). cell_at r k \<notin> set seen)"
proof (induction rs arbitrary: seen)
  case Nil
  then show ?case by simp
next
  case (Cons r rs)
  from Cons.IH [of seen] Cons.IH [of "cell_at r k # seen"] show ?case
    by (auto simp: image_iff)
qed

lemma drop_duplicates_distinct:
  "drop_duplicates df k = Inr d \<Longrightarrow> distinct (map (\<lambda>r. cell_at r k) (rows d))"
  using keep_first_keys [of k "[]" "rows df"]
  by (auto simp: drop_duplicates_def split: if_splits)

lemma rows_rename_columns [simp]: "length (rows (rename_columns f df)) = length (rows df)"
  by (simp add: rename_columns_def)

lemma andthenE:
  assumes "andthen m f = Inr y"
  obtains x where "m = Inr x" and "f x = Inr y"
  using assms unfolding andthen_Inr_iff by blast

lemma join_users_rows:
  assumes "join_users ref users = Inr d"
  shows "length (rows d) = length (rows ref)"
  using assms unfolding join_users_def
  apply (elim andthenE)
  subgoal premises p for u1 u2 tz_map d1 d1' d2
  proof -
    have dist: "distinct (map (\<lambda>r. cell_at r ''user_id'') (rows tz_map))"
      using p(3) by (rule drop_duplicates_distinct)
    have a: "length (rows d1) = length (rows ref)"
      using p(4) dist by (rule merge_left_unique)
    have b: "length (rows d1') = length (rows d1)"
      using p(5) by auto
    have c: "length (rows d2) = length (rows d1')"
      using p(6) dist by (rule merge_left_unique)
    have e: "length (rows d) = length (rows d2)"
      using p(7) by auto
    show ?thesis using a b c e by simp
  qed
  done

lemma join_transactions_rows:
  assumes "join_transactions ref transactions = Inr d"
    and "distinct (map (\<lambda>r. cell_at r ''transaction_id'') (rows transactions))"
  shows "length (rows d) = length (rows ref)"
  using assms merge_left_unique [of ref transactions "''transaction_id''" "''transaction_id''" _ d]
  by (auto simp: join_transactions_def split: if_splits)

lemma join_rewards_rows:
  assumes "join_rewards df rewards_csv = Inr d"
  shows "length (rows d) = length (rows df)"
proof (cases rewards_csv)
  case None
  with assms show ?thesis by (simp add: join_rewards_def)
next
  case (Some loaded)
  let ?r = "rename_columns strip loaded"
  let ?rewards = "if ''user_referral_id'' \<in> set (columns ?r)
                  then rename_columns (renaming [(''user_referral_id'', ''id'')]) ?r else ?r"
  let ?k = "if ''referral_id'' \<in> set (columns df) then ''referral_id'' else ''id''"
  show ?thesis
  proof (cases "?k \<in> set (columns df) \<and> ?k \<in> set (columns ?rewards)")
    case False
    with assms Some show ?thesis
      by (simp add: join_rewards_def Let_def)
  next
    case True
    with assms Some have "andthen (drop_duplicates ?rewards ?k)
        (\<lambda>rewards. merge_left df rewards ?k ?k ('''', ''_reward'')) = Inr d"
      by (simp add: join_rewards_def Let_def)
    then obtain t where t: "drop_duplicates ?rewards ?k = Inr t"
      and m: "merge_left df t ?k ?k ('''', ''_reward'') = Inr d"
      by (rule andthenE)
    from t have "distinct (map (\<lambda>r. cell_at r ?k) (rows t))"
      by (rule drop_duplicates_distinct)
    with m show ?thesis by (rule merge_left_unique)
  qed
qed

lemma join_statuses_rows:
  assumes "join_statuses df statuses_csv = Inr d"
    and "\<forall>loaded. statuses_csv = Some loaded \<longrightarrow>
           unique_keys (prepare_statuses (rename_columns strip loaded))
             ''user_referral_status_id''"
  shows "length (rows d) = length (rows df)"
proof (cases statuses_csv)
  case None
  with assms show ?thesis by (simp add: join_statuses_def)
next
  case (Some loaded)
  let ?s = "rename_columns strip loaded"
  show ?thesis
  proof (cases "''description'' \<in> set (columns ?s)")
    case False
    with assms Some show ?thesis
      by (simp add: join_statuses_def Let_def)
  next
    case True
    with assms Some have "andthen (prepare_statuses ?s)
        (\<lambda>s. merge_left df s ''user_referral_status_id'' ''user_referral_status_id''
               (''_x'', ''_y'')) = Inr d"
      by (simp add: join_statuses_def Let_def)
    then obtain t where t: "prepare_statuses ?s = Inr t"
      and m: "merge_left df t ''user_referral_status_id'' ''user_referral_status_id''
               (''_x'', ''_y'') = Inr d"
      by (rule andthenE)
    from assms(2) Some t
    have "distinct (map (\<lambda>r. cell_at r ''user_referral_status_id'') (rows t))"
      by (simp add: unique_keys_def)
    with m show ?thesis by (rule merge_left_unique)
  qed
qed

lemma setcol_rows: "setcol df k vs = Inr d \<Longrightarrow> length (rows d) = length (rows df)"
  by (auto simp: setcol_def split: if_splits)

lemma apply_clean_id_rows:
  assumes "apply_clean_id df k = Inr d"
  shows "length (rows d) = length (rows df)"
  using assms unfolding apply_clean_id_def
  by (elim andthenE) (rule setcol_rows)

lemma fill_final_tz_rows:
  assumes "fill_final_tz df = Inr d"
  shows "length (rows d) = length (rows df)"
  using assms unfolding fill_final_tz_def
  by (elim andthenE) (rule setcol_rows)

lemma clean_then_join_rows:
  assumes c: "clean_transactions loaded = Inr transactions"
    and j: "join_transactions ref transactions = Inr d"
    and u: "unique_keys (clean_transactions loaded) ''transaction_id''"
  shows "length (rows d) = length (rows ref)"
proof -
  from u c have "distinct (map (\<lambda>r. cell_at r ''transaction_id'') (rows transactions))"
    by (simp add: unique_keys_def)
  with j show ?thesis by (rule join_transactions_rows)
qed

lemma assemble_referrals_rows:
  assumes "assemble_referrals loaded_ref loaded_users loaded_transactions = Inr d"
    and u: "unique_keys (clean_transactions loaded_transactions) ''transaction_id''"
  shows "length (rows d) = length (rows loaded_ref)"
  using assms(1) unfolding assemble_referrals_def
  apply (elim andthenE)
  subgoal premises p for r1 r2 users r3 transactions r4 r5
  proof -
    have a: "length (rows r1) = length (rows loaded_ref)"
      using apply_clean_id_rows [OF p(1)] by simp
    have b: "length (rows r2) = length (rows r1)"
      using p(2) by (rule apply_clean_id_rows)
    have c: "length (rows r3) = length (rows r2)"
    proof (cases "''transaction_id'' \<in> set (columns r2)")
      case True
      with p(4) have "apply_clean_id r2 ''transaction_id'' = Inr r3"
        by (simp only: if_True)
      then show ?thesis by (rule apply_clean_id_rows)
    next
      case False
      with p(4) have "Inr r2 = (Inr r3 :: exn + frame)"
        by (simp only: if_False)
      then show ?thesis by simp
    qed
    have e: "length (rows r4) = length (rows r3)"
      using p(6) by (rule join_users_rows)
    have f: "length (rows r5) = length (rows r4)"
      using p(7) by (rule fill_final_tz_rows)
    have g: "length (rows d) = length (rows r5)"
      using p(5) p(8) u by (rule clean_then_join_rows)
    show ?thesis using a b c e f g by simp
  qed
  done

text \<open>
  Claim C9, as amended. The two user joins and the reward join keep the number of
  referral rows for every user table and every reward table, one with repeated keys
  included, because the right-hand table is reduced to one row per key first. The
  transaction table is merged after its transaction ids have been normalized, and that
  join keeps the number of rows when no two of its rows have the same normalized id.
  The status table is merged with its keys as loaded, and that join keeps the number of
  rows when no two of its rows have the same key. Under these two conditions the number
  of rows after cleaning and the user, transaction, status and reward joins is the
  number of referral rows that were loaded.
\<close>

theorem joins_preserve_row_count:
  "(row_count (join_users ref users) = Inr n1 \<longrightarrow> n1 = length (rows ref))
   \<and> (row_count (join_rewards df rewards_csv) = Inr n2 \<longrightarrow> n2 = length (rows df))
   \<and> (unique_keys (clean_transactions loaded_transactions) ''transaction_id''
        \<and> row_count (andthen (clean_transactions loaded_transactions)
             (join_transactions ref)) = Inr n3
      \<longrightarrow> n3 = length (rows ref))
   \<and> ((\<forall>loaded. statuses_csv = Some loaded \<longrightarrow>
          unique_keys (prepare_statuses (rename_columns strip loaded))
            ''user_referral_status_id'')
        \<and> row_count (join_statuses df statuses_csv) = Inr n4
      \<longrightarrow> n4 = length (rows df))
   \<and> (unique_keys (clean_transactions loaded_transactions) ''transaction_id''
        \<and> (\<forall>loaded. statuses_csv = Some loaded \<longrightarrow>
              unique_keys (prepare_statuses (rename_columns strip loaded))
                ''user_referral_status_id'')
        \<and> row_count (andthen (assemble_referrals loaded_ref loaded_users loaded_transactions)
             (\<lambda>d. andthen (join_statuses d statuses_csv)
             (\<lambda>d. join_rewards d rewards_csv))) = Inr n5
      \<longrightarrow> n5 = length (rows loaded_ref))"
proof -
  have 1: "row_count (join_users ref users) = Inr n1 \<longrightarrow> n1 = length (rows ref)"
    unfolding row_count_Inr_iff using join_users_rows by blast
  have 2: "row_count (join_rewards df rewards_csv) = Inr n2 \<longrightarrow> n2 = length (rows df)"
    unfolding row_count_Inr_iff using join_rewards_rows by blast
  have 3: "unique_keys (clean_transactions loaded_transactions) ''transaction_id''
        \<and> row_count (andthen (clean_transactions loaded_transactions)
             (join_transactions ref)) = Inr n3
      \<longrightarrow> n3 = length (rows ref)"
  proof (intro impI, elim conjE)
    assume u: "unique_keys (clean_transactions loaded_transactions) ''transaction_id''"
      and rc: "row_count (andthen (clean_transactions loaded_transactions)
             (join_transactions ref)) = Inr n3"
    from rc obtain d where r: "andthen (clean_transactions loaded_transactions)
             (join_transactions ref) = Inr d" and n: "n3 = length (rows d)"
      unfolding row_count_Inr_iff by blast
    from r obtain t where c: "clean_transactions loaded_transactions = Inr t"
      and j: "join_transactions ref t = Inr d"
      by (rule andthenE)
    from clean_then_join_rows [OF c j u] n show "n3 = length (rows ref)" by simp
  qed
  have 4: "(\<forall>loaded. statuses_csv = Some loaded \<longrightarrow>
          unique_keys (prepare_statuses (rename_columns strip loaded))
            ''user_referral_status_id'')
        \<and> row_count (join_statuses df statuses_csv) = Inr n4
      \<longrightarrow> n4 = length (rows df)"
    unfolding row_count_Inr_iff using join_statuses_rows by blast
  have 5: "unique_keys (clean_transactions loaded_transactions) ''transaction_id''
        \<and> (\<forall>loaded. statuses_csv = Some loaded \<longrightarrow>
              unique_keys (prepare_statuses (rename_columns strip loaded))
                ''user_referral_status_id'')
        \<and> row_count (andthen (assemble_referrals loaded_ref loaded_users loaded_transactions)
             (\<lambda>d. andthen (join_statuses d statuses_csv)
             (\<lambda>d. join_rewards d rewards_csv))) = Inr n5
      \<longrightarrow> n5 = length (rows loaded_ref)"
  proof (intro impI, elim conjE)
    assume u: "unique_keys (clean_transactions loaded_transactions) ''transaction_id''"
      and us: "\<forall>loaded. statuses_csv = Some loaded \<longrightarrow>
              unique_keys (prepare_statuses (rename_columns strip loaded))
                ''user_referral_status_id''"
      and rc: "row_count (andthen (assemble_referrals loaded_ref loaded_users loaded_transactions)
             (\<lambda>d. andthen (join_statuses d statuses_csv)
             (\<lambda>d. join_rewards d rewards_csv))) = Inr n5"
    from rc obtain d4 where r: "andthen
             (assemble_referrals loaded_ref loaded_users loaded_transactions)
             (\<lambda>d. andthen (join_statuses d statuses_csv)
             (\<lambda>d. join_rewards d rewards_csv)) = Inr d4" and n: "n5 = length (rows d4)"
      unfolding row_count_Inr_iff by blast
    from r obtain d2 d3
      where j1: "assemble_referrals loaded_ref loaded_users loaded_transactions = Inr d2"
      and j3: "join_statuses d2 statuses_csv = Inr d3"
      and j4: "join_rewards d3 rewards_csv = Inr d4"
      by (elim andthenE)
    from assemble_referrals_rows [OF j1 u]
      join_statuses_rows [OF j3 us] join_rewards_rows [OF j4] n
    show "n5 = length (rows loaded_ref)" by simp
  qed
  show ?thesis
    by (intro conjI) (rule 1, rule 2, rule 3, rule 4, rule 5)
qed

lemma example_row_counts:
  "row_count (join_users example_referrals example_users) = Inr 1"
  "row_count (join_rewards example_referrals (Some example_rewards)) = Inr 1"
  "row_count (andthen (clean_transactions example_transactions_once)
     (join_transactions example_referrals)) = Inr 1"
  "row_count (join_statuses example_joined (Some example_statuses)) = Inr 2"
  "length (rows example_referrals) = 1"
  "length (rows example_joined) = 2"
  "unique_keys (clean_transactions example_transactions_once) ''transaction_id''"
  "unique_keys (prepare_statuses (rename_columns strip example_statuses))
     ''user_referral_status_id''"
  by code_simp+

lemma example_pipeline_count:
  "row_count (andthen
     (assemble_referrals example_referrals example_users example_transactions_once)
     (\<lambda>d. andthen (join_statuses d None)
     (\<lambda>d. join_rewards d (Some example_rewards)))) = Inr 1"
  by code_simp

theorem joins_preserve_row_count_witness:
  "row_count (join_users example_referrals example_users)
     = Inr (length (rows example_referrals))
   \<and> row_count (join_rewards example_referrals (Some example_rewards))
     = Inr (length (rows example_referrals))
   \<and> unique_keys (clean_transactions example_transactions_once) ''transaction_id''
   \<and> row_count (andthen (clean_transactions example_transactions_once)
        (join_transactions example_referrals))
     = Inr (length (rows example_referrals))
   \<and> unique_keys (prepare_statuses (rename_columns strip example_statuses))
       ''user_referral_status_id''
   \<and> row_count (join_statuses example_joined (Some example_statuses))
     = Inr (length (rows example_joined))
   \<and> row_count (andthen
        (assemble_referrals example_referrals example_users example_transactions_once)
        (\<lambda>d. andthen (join_statuses d None)
        (\<lambda>d. join_rewards d (Some example_rewards))))
     = Inr (length (rows example_referrals))"
proof -
  note t = joins_preserve_row_count [of example_referrals example_users 1 example_referrals
      "Some example_rewards" 1 example_transactions_once 1 "Some example_statuses" 2]
  have "1 = length (rows example_referrals)"
    using t example_row_counts by blast
  moreover have "2 = length (rows example_joined)"
    using joins_preserve_row_count [of _ _ _ example_joined _ _ _ _ "Some example_statuses" 2]
      example_row_counts by simp
  moreover have "1 = length (rows example_referrals)"
    using joins_preserve_row_count [of _ _ _ _ _ _ example_transactions_once _ None _
        example_referrals example_users 1]
      example_row_counts example_pipeline_count by simp
  ultimately show ?thesis
    using example_row_counts example_pipeline_count by simp
qed

text \<open>
  Claim C9 as stated fails for the transaction join. A transaction table in which the
  transaction of a referral occurs twice turns one referral row into two; so does a
  table whose ids \<open>T1\<close> and \<open>T1.0\<close> differ as loaded and are both normalized to \<open>T1\<close>.
\<close>

theorem transaction_join_multiplies_rows:
  "row_count (assemble_referrals example_referrals example_users example_transactions)
     = Inr 2
   \<and> row_count (assemble_referrals example_referrals example_users
        example_transactions_suffix) = Inr 2
   \<and> distinct (map (\<lambda>r. cell_at r ''transaction_id'') (rows example_transactions_suffix))
   \<and> length (rows example_referrals) = 1"
  by code_simp


section \<open>Properties of flag derivation\<close>

lemma getcol_length: "getcol df k = Inr c \<Longrightarrow> length c = length (rows df)"
  by (auto simp: getcol_def split: if_splits)

lemma getcol_Inr_iff: "(\<exists>c. getcol df k = Inr c) \<longleftrightarrow> k \<in> set (columns df)"
  by (simp add: getcol_def)

lemma getcol_eq_columns:
  "getcol d k = getcol df k \<Longrightarrow> k \<in> set (columns d) \<longleftrightarrow> k \<in> set (columns df)"
  by (metis getcol_Inr_iff)

lemma keeps_refl: "keeps df df K"
  by (simp add: keeps_def)

lemma keeps_trans: "keeps a b K \<Longrightarrow> keeps b c L \<Longrightarrow> keeps a c (K \<union> L)"
  by (simp add: keeps_def)

lemma keeps_mono: "keeps a b K \<Longrightarrow> K \<subseteq> L \<Longrightarrow> keeps a b L"
  by (auto simp: keeps_def)

lemma keeps_columns: "keeps df d K \<Longrightarrow> k \<notin> K \<Longrightarrow> k \<in> set (columns d) \<longleftrightarrow> k \<in> set (columns df)"
  unfolding keeps_def using getcol_eq_columns [of d k df] by blast

lemma keeps_getcol: "keeps df d K \<Longrightarrow> k \<notin> K \<Longrightarrow> getcol d k = getcol df k"
  by (simp add: keeps_def)

lemma keeps_rows: "keeps df d K \<Longrightarrow> length (rows d) = length (rows df)"
  by (simp add: keeps_def)

lemma setcol_getcol_same:
  assumes "setcol df k vs = Inr d"
  shows "getcol d k = Inr vs"
proof -
  from assms have l: "length vs = length (rows df)"
    by (auto simp: setcol_def split: if_splits)
  have "map (\<lambda>r. cell_at r k) (map (\<lambda>(r, v). r(k \<mapsto> v)) (zip rs vs)) = vs"
    if "length vs = length rs" for rs :: "entry list"
    using that by (induction vs rs rule: list_induct2) (simp_all add: cell_at_def)
  with assms l show ?thesis
    by (auto simp: setcol_def getcol_def split: if_splits)
qed

lemma setcol_getcol_other:
  assumes "setcol df k vs = Inr d" and "k' \<noteq> k"
  shows "getcol d k' = getcol df k'"
proof -
  from assms have l: "length vs = length (rows df)"
    by (auto simp: setcol_def split: if_splits)
  have "map (\<lambda>r. cell_at r k') (map (\<lambda>(r, v). r(k \<mapsto> v)) (zip rs vs)) = map (\<lambda>r. cell_at r k') rs"
    if "length vs = length rs" for rs :: "entry list"
    using that assms(2) by (induction vs rs rule: list_induct2) (simp_all add: cell_at_def)
  with assms l show ?thesis
    by (auto simp: setcol_def getcol_def split: if_splits)
qed

lemma setcol_keeps:
  assumes "setcol df k vs = Inr d" and "k \<in> K"
  shows "keeps df d K"
  unfolding keeps_def
proof (intro conjI allI impI)
  show "length (rows d) = length (rows df)"
    using assms(1) by (rule setcol_rows)
next
  fix k'
  assume "k' \<notin> K"
  with assms(2) have "k' \<noteq> k" by blast
  with assms(1) show "getcol d k' = getcol df k'"
    by (rule setcol_getcol_other)
qed

lemma keeps_trans_same: "keeps a b K \<Longrightarrow> keeps b c K \<Longrightarrow> keeps a c K"
  by (simp add: keeps_def)

lemma setcol_ok: "length vs = length (rows df) \<Longrightarrow> \<exists>d. setcol df k vs = Inr d"
  by (simp add: setcol_def)

lemma setcol_const_keeps: "setcol_const df k v = Inr d \<Longrightarrow> k \<in> K \<Longrightarrow> keeps df d K"
  unfolding setcol_const_def by (rule setcol_keeps)

lemma setcol_const_getcol:
  "setcol_const df k v = Inr d \<Longrightarrow> getcol d k = Inr (replicate (length (rows df)) v)"
  unfolding setcol_const_def by (rule setcol_getcol_same)

lemma setcol_const_ok: "\<exists>d. setcol_const df k v = Inr d"
  unfolding setcol_const_def by (rule setcol_ok) simp

lemma andthen_ok:
  "m = Inr x \<Longrightarrow> \<exists>y. f x = Inr y \<Longrightarrow> \<exists>y. andthen m f = Inr y"
  by simp

lemma fill_reward_value_keeps:
  assumes "fill_reward_value df = Inr d" and "''reward_value'' \<in> K"
  shows "keeps df d K"
  using assms(1) unfolding fill_reward_value_def
  apply (elim andthenE)
  subgoal premises p for x c
  proof -
    have "keeps df x K"
    proof (cases "''reward_value'' \<in> set (columns df)")
      case True
      with p(1) show ?thesis by (simp add: keeps_refl)
    next
      case False
      with p(1) have "setcol_const df ''reward_value'' (N 0) = Inr x" by simp
      then show ?thesis using assms(2) by (rule setcol_const_keeps)
    qed
    moreover have "keeps x d K"
      using p(3) assms(2) by (rule setcol_keeps)
    ultimately show ?thesis by (rule keeps_trans_same)
  qed
  done

lemma fill_reward_value_ok: "\<exists>d. fill_reward_value df = Inr d"
proof -
  obtain x where x: "(if ''reward_value'' \<notin> set (columns df)
      then setcol_const df ''reward_value'' (N 0) else Inr df) = Inr x"
    and c: "''reward_value'' \<in> set (columns x)"
  proof (cases "''reward_value'' \<in> set (columns df)")
    case True
    then show ?thesis using that by simp
  next
    case False
    obtain y where y: "setcol_const df ''reward_value'' (N 0) = Inr y"
      using setcol_const_ok by blast
    then have "getcol y ''reward_value'' = Inr (replicate (length (rows df)) (N 0))"
      by (rule setcol_const_getcol)
    then have "''reward_value'' \<in> set (columns y)"
      using getcol_Inr_iff by blast
    with y False show ?thesis using that by simp
  qed
  from c obtain cs where cs: "getcol x ''reward_value'' = Inr cs"
    using getcol_Inr_iff by blast
  then have "length (map fillna_0 cs) = length (rows x)"
    by (simp add: getcol_length)
  then obtain d where "setcol x ''reward_value'' (map fillna_0 cs) = Inr d"
    using setcol_ok by blast
  with x cs show ?thesis
    unfolding fill_reward_value_def by simp
qed

lemma fill_reward_value_default:
  assumes "fill_reward_value df = Inr d" and "''reward_value'' \<notin> set (columns df)"
  shows "getcol d ''reward_value'' = Inr (replicate (length (rows df)) (N 0))"
proof -
  from assms obtain x cs where x: "setcol_const df ''reward_value'' (N 0) = Inr x"
    and cs: "getcol x ''reward_value'' = Inr cs"
    and d: "setcol x ''reward_value'' (map fillna_0 cs) = Inr d"
    unfolding fill_reward_value_def by (auto elim!: andthenE)
  from x have "getcol x ''reward_value'' = Inr (replicate (length (rows df)) (N 0))"
    by (rule setcol_const_getcol)
  with cs have "map fillna_0 cs = replicate (length (rows df)) (N 0)"
    by auto
  with d have "setcol x ''reward_value'' (replicate (length (rows df)) (N 0)) = Inr d"
    by simp
  then show ?thesis by (rule setcol_getcol_same)
qed

lemma fill_reward_value_cells:
  assumes "fill_reward_value df = Inr d"
    and "\<forall>c. getcol df ''reward_value'' = Inr c \<longrightarrow> (\<forall>x\<in>set c. \<forall>s. x \<noteq> S s)"
  shows "\<exists>c. getcol d ''reward_value'' = Inr c \<and> (\<forall>x\<in>set c. \<forall>s. x \<noteq> S s)"
proof -
  from assms(1) obtain x cs where
    x: "(if ''reward_value'' \<notin> set (columns df)
      then setcol_const df ''reward_value'' (N 0) else Inr df) = Inr x"
    and cs: "getcol x ''reward_value'' = Inr cs"
    and d: "setcol x ''reward_value'' (map fillna_0 cs) = Inr d"
    unfolding fill_reward_value_def by (auto elim!: andthenE)
  have "\<forall>x\<in>set cs. \<forall>s. x \<noteq> S s"
  proof (cases "''reward_value'' \<in> set (columns df)")
    case True
    with x cs assms(2) show ?thesis by simp
  next
    case False
    with x have "getcol x ''reward_value'' = Inr (replicate (length (rows df)) (N 0))"
      by (simp add: setcol_const_getcol)
    with cs show ?thesis by auto
  qed
  then have "\<forall>x\<in>set (map fillna_0 cs). \<forall>s. x \<noteq> S s"
  proof (intro ballI allI)
    fix y s
    assume a: "\<forall>x\<in>set cs. \<forall>s. x \<noteq> S s" and "y \<in> set (map fillna_0 cs)"
    then obtain z where "z \<in> set cs" and "y = fillna_0 z" by auto
    with a show "y \<noteq> S s" by (cases z) auto
  qed
  moreover from d have "getcol d ''reward_value'' = Inr (map fillna_0 cs)"
    by (rule setcol_getcol_same)
  ultimately show ?thesis by blast
qed

lemma sequence_gt_zero:
  "\<forall>x\<in>set c. \<forall>s. x \<noteq> S s \<Longrightarrow> \<exists>bs. sequence (map gt_zero c) = Inr bs \<and> length bs = length c"
proof (induction c)
  case Nil
  then show ?case by simp
next
  case (Cons a c)
  then obtain bs where "sequence (map gt_zero c) = Inr bs" and "length bs = length c"
    by auto
  with Cons.prems show ?case by (cases a) auto
qed

lemma sequence_length: "sequence xs = Inr vs \<Longrightarrow> length vs = length xs"
  by (induction xs arbitrary: vs) (auto split: sum.splits)

lemma sequence_replicate: "sequence (replicate n (Inr v)) = Inr (replicate n v)"
  by (induction n) simp_all

lemma flag_has_reward_keeps:
  assumes "flag_has_reward df = Inr d" and "''has_reward'' \<in> K"
  shows "keeps df d K"
  using assms(1) unfolding flag_has_reward_def
  apply (elim andthenE)
  subgoal premises p for c bs
    using p(3) assms(2) by (rule setcol_keeps)
  done

lemma flag_has_reward_ok:
  assumes "getcol df ''reward_value'' = Inr c" and "\<forall>x\<in>set c. \<forall>s. x \<noteq> S s"
  shows "\<exists>d. flag_has_reward df = Inr d"
proof -
  from assms(2) obtain bs where bs: "sequence (map gt_zero c) = Inr bs"
    and l: "length bs = length c"
    using sequence_gt_zero by blast
  from l assms(1) have "length (map B bs) = length (rows df)"
    by (simp add: getcol_length)
  then obtain d where "setcol df ''has_reward'' (map B bs) = Inr d"
    using setcol_ok by blast
  with assms(1) bs show ?thesis
    unfolding flag_has_reward_def by simp
qed

lemma flag_has_reward_default:
  assumes "flag_has_reward df = Inr d"
    and "getcol df ''reward_value'' = Inr (replicate n (N 0))"
  shows "getcol d ''has_reward'' = Inr (replicate n (B False))"
proof -
  from assms have "setcol df ''has_reward'' (map B (replicate n False)) = Inr d"
    unfolding flag_has_reward_def by (simp add: sequence_replicate)
  then have "getcol d ''has_reward'' = Inr (map B (replicate n False))"
    by (rule setcol_getcol_same)
  then show ?thesis by simp
qed

lemma flag_status_keeps:
  assumes "flag_status df = Inr d" and "''is_success'' \<in> K" "''is_pending_or_failed'' \<in> K"
  shows "keeps df d K"
  using assms(1) unfolding flag_status_def
  apply (elim andthenE)
  subgoal premises p for c x c'
  proof -
    have "keeps df x K"
      using p(2) assms(2) by (rule setcol_keeps)
    moreover have "keeps x d K"
      using p(4) assms(3) by (rule setcol_keeps)
    ultimately show ?thesis by (rule keeps_trans_same)
  qed
  done

lemma flag_status_ok:
  assumes "''status_name'' \<in> set (columns df)"
  shows "\<exists>d. flag_status df = Inr d"
proof -
  from assms obtain c where c: "getcol df ''status_name'' = Inr c"
    using getcol_Inr_iff by blast
  then have "length (map (\<lambda>x. B (status_is_success x)) c) = length (rows df)"
    by (simp add: getcol_length)
  then obtain x where x: "setcol df ''is_success'' (map (\<lambda>x. B (status_is_success x)) c) = Inr x"
    using setcol_ok by blast
  then have k: "getcol x ''status_name'' = Inr c" and r: "length (rows x) = length (rows df)"
    using c setcol_getcol_other [of df "''is_success''" _ x "''status_name''"] setcol_rows
    by auto
  with c have "length (map (\<lambda>x. B (status_is_pending_or_failed x)) c) = length (rows x)"
    by (simp add: getcol_length)
  then obtain d where
    "setcol x ''is_pending_or_failed'' (map (\<lambda>x. B (status_is_pending_or_failed x)) c) = Inr d"
    using setcol_ok by blast
  with c x k show ?thesis
    unfolding flag_status_def by simp
qed

lemma getcol_InrD: "getcol df k = Inr c \<Longrightarrow> k \<in> set (columns df)"
  using getcol_Inr_iff by blast

lemma assign_ok:
  assumes "a \<in> set (columns df)"
  shows "\<exists>c x. getcol df a = Inr c \<and> setcol df b (map g c) = Inr x"
proof -
  from assms obtain c where c: "getcol df a = Inr c"
    using getcol_Inr_iff by blast
  then have "length (map g c) = length (rows df)"
    by (simp add: getcol_length)
  then obtain x where "setcol df b (map g c) = Inr x"
    using setcol_ok by blast
  with c show ?thesis by blast
qed

lemma read_dates_Inr_iff:
  "read_dates e df k = Inr t \<longleftrightarrow> (\<exists>c. getcol df k = Inr c \<and> to_datetime e c = Inr t)"
  by (simp add: read_dates_def andthen_Inr_iff)

lemma read_dates_InrD: "read_dates e df k = Inr t \<Longrightarrow> k \<in> set (columns df)"
  unfolding read_dates_Inr_iff using getcol_InrD by blast

lemma naive_dates_cong: "getcol d k = getcol df k \<Longrightarrow> naive_dates e d k = naive_dates e df k"
  by (simp add: naive_dates_def)

lemma naive_dates_keeps:
  "keeps df d K \<Longrightarrow> k \<notin> K \<Longrightarrow> naive_dates e d k = naive_dates e df k"
  by (rule naive_dates_cong) (rule keeps_getcol)

lemma naive_dates_read:
  assumes "naive_dates e df k" and "k \<in> set (columns df)"
  obtains t where "read_dates e df k = Inr t" "\<not> tz_aware t"
    "length (times t) = length (rows df)"
proof -
  from assms(2) obtain c where c: "getcol df k = Inr c"
    using getcol_Inr_iff by blast
  with assms(1) obtain t where t: "to_datetime e c = Inr t" "\<not> tz_aware t"
    "length (times t) = length c"
    by (auto simp: naive_dates_def split: sum.splits)
  have "read_dates e df k = Inr t"
    using c t(1) by (simp add: read_dates_def)
  moreover have "length (times t) = length (rows df)"
    using t(3) getcol_length [OF c] by simp
  ultimately show ?thesis using t(2) that by blast
qed

lemma convert_if_present_ok:
  assumes "naive_dates e df k"
  shows "convert_if_present e df k = Inr ()"
proof (cases "k \<in> set (columns df)")
  case True
  obtain t where "read_dates e df k = Inr t"
    by (rule naive_dates_read [OF assms True])
  then obtain c where "getcol df k = Inr c" "to_datetime e c = Inr t"
    unfolding read_dates_Inr_iff by blast
  with True show ?thesis
    by (simp add: convert_if_present_def)
next
  case False
  then show ?thesis by (simp add: convert_if_present_def)
qed

lemma convert_dates_Inr: "convert_dates e df = Inr d \<Longrightarrow> d = df"
  unfolding convert_dates_def by (elim andthenE) simp

lemma convert_dates_ok:
  assumes "naive_dates e df ''referral_at_local''" "naive_dates e df ''transaction_at_local''"
    "naive_dates e df ''referrer_expiry''"
  shows "convert_dates e df = Inr df"
  unfolding convert_dates_def
  by (simp only: convert_if_present_ok [OF assms(1)] convert_if_present_ok [OF assms(2)]
      convert_if_present_ok [OF assms(3)] andthen_Inr)

lemma dates_ge_naive:
  "\<not> tz_aware a \<Longrightarrow> \<not> tz_aware b \<Longrightarrow>
    dates_ge a b = Inr (map (\<lambda>(x, y). time_ge x y) (zip (times a) (times b)))"
  by (simp add: dates_ge_def)

lemma dates_ge_length:
  "dates_ge a b = Inr bs \<Longrightarrow> length bs = min (length (times a)) (length (times b))"
  by (auto simp: dates_ge_def split: if_splits)

lemma dates_ge_now_naive:
  "\<not> tz_aware a \<Longrightarrow> dates_ge_now a today = Inr (map (\<lambda>x. time_ge x (Some today)) (times a))"
  by (simp add: dates_ge_now_def)

lemma flag_transaction_steps:
  assumes "flag_transaction e df = Inr d"
  obtains c1 x1 c2 x2 c3 x3 tx rf bs where
    "getcol df ''transaction_id'' = Inr c1"
    "setcol df ''has_trans_id'' (map (\<lambda>x. B (\<not> py_isna x \<and> py_str x \<noteq> ''nan'')) c1) = Inr x1"
    "getcol x1 ''transaction_status'' = Inr c2"
    "setcol x1 ''is_trans_paid'' (map (\<lambda>x. B (upper (py_str x) = ''PAID'')) c2) = Inr x2"
    "getcol x2 ''transaction_type'' = Inr c3"
    "setcol x2 ''is_trans_new'' (map (\<lambda>x. B (upper (py_str x) = ''NEW'')) c3) = Inr x3"
    "read_dates e x3 ''transaction_at_local'' = Inr tx"
    "read_dates e x3 ''referral_at_local'' = Inr rf"
    "dates_ge tx rf = Inr bs"
    "setcol x3 ''tx_after_ref'' (map B bs) = Inr d"
  using assms unfolding flag_transaction_def
  by (elim andthenE)

lemma flag_transaction_keeps:
  assumes "flag_transaction e df = Inr d"
    and "''has_trans_id'' \<in> K" "''is_trans_paid'' \<in> K" "''is_trans_new'' \<in> K"
    "''tx_after_ref'' \<in> K"
  shows "keeps df d K"
proof -
  from assms(1) obtain c1 x1 c2 x2 c3 x3 tx rf bs where
    g1: "getcol df ''transaction_id'' = Inr c1"
    and s1: "setcol df ''has_trans_id'' (map (\<lambda>x. B (\<not> py_isna x \<and> py_str x \<noteq> ''nan'')) c1) = Inr x1"
    and g2: "getcol x1 ''transaction_status'' = Inr c2"
    and s2: "setcol x1 ''is_trans_paid'' (map (\<lambda>x. B (upper (py_str x) = ''PAID'')) c2) = Inr x2"
    and g3: "getcol x2 ''transaction_type'' = Inr c3"
    and s3: "setcol x2 ''is_trans_new'' (map (\<lambda>x. B (upper (py_str x) = ''NEW'')) c3) = Inr x3"
    and g4: "read_dates e x3 ''transaction_at_local'' = Inr tx"
    and g5: "read_dates e x3 ''referral_at_local'' = Inr rf"
    and dg: "dates_ge tx rf = Inr bs"
    and s4: "setcol x3 ''tx_after_ref'' (map B bs) = Inr d"
    by (rule flag_transaction_steps)
  have "keeps df x1 K" using s1 assms(2) by (rule setcol_keeps)
  moreover have "keeps x1 x2 K" using s2 assms(3) by (rule setcol_keeps)
  ultimately have "keeps df x2 K" by (rule keeps_trans_same)
  moreover have "keeps x2 x3 K" using s3 assms(4) by (rule setcol_keeps)
  ultimately have "keeps df x3 K" by (rule keeps_trans_same)
  moreover have "keeps x3 d K" using s4 assms(5) by (rule setcol_keeps)
  ultimately show ?thesis by (rule keeps_trans_same)
qed

lemma flag_transaction_requires:
  assumes "flag_transaction e df = Inr d"
  shows "''transaction_id'' \<in> set (columns df) \<and> ''transaction_status'' \<in> set (columns df)
    \<and> ''transaction_type'' \<in> set (columns df)
    \<and> ''transaction_at_local'' \<in> set (columns df)
    \<and> ''referral_at_local'' \<in> set (columns df)"
proof -
  let ?K = "{''has_trans_id'', ''is_trans_paid'', ''is_trans_new'', ''tx_after_ref''}"
  from assms(1) obtain c1 x1 c2 x2 c3 x3 tx rf where
    g1: "getcol df ''transaction_id'' = Inr c1"
    and s1: "setcol df ''has_trans_id'' (map (\<lambda>x. B (\<not> py_isna x \<and> py_str x \<noteq> ''nan'')) c1) = Inr x1"
    and g2: "getcol x1 ''transaction_status'' = Inr c2"
    and s2: "setcol x1 ''is_trans_paid'' (map (\<lambda>x. B (upper (py_str x) = ''PAID'')) c2) = Inr x2"
    and g3: "getcol x2 ''transaction_type'' = Inr c3"
    and s3: "setcol x2 ''is_trans_new'' (map (\<lambda>x. B (upper (py_str x) = ''NEW'')) c3) = Inr x3"
    and g4: "read_dates e x3 ''transaction_at_local'' = Inr tx"
    and g5: "read_dates e x3 ''referral_at_local'' = Inr rf"
    by (rule flag_transaction_steps)
  have k1: "keeps df x1 ?K" using s1 by (rule setcol_keeps) simp
  have "keeps x1 x2 ?K" using s2 by (rule setcol_keeps) simp
  with k1 have k2: "keeps df x2 ?K" by (rule keeps_trans_same)
  have "keeps x2 x3 ?K" using s3 by (rule setcol_keeps) simp
  with k2 have k3: "keeps df x3 ?K" by (rule keeps_trans_same)
  have "''transaction_id'' \<in> set (columns df)"
    using g1 by (rule getcol_InrD)
  moreover have "''transaction_status'' \<in> set (columns df)"
    using getcol_InrD [OF g2] keeps_columns [OF k1, of "''transaction_status''"] by simp
  moreover have "''transaction_type'' \<in> set (columns df)"
    using getcol_InrD [OF g3] keeps_columns [OF k2, of "''transaction_type''"] by simp
  moreover have "''transaction_at_local'' \<in> set (columns df)"
    using read_dates_InrD [OF g4] keeps_columns [OF k3, of "''transaction_at_local''"] by simp
  moreover have "''referral_at_local'' \<in> set (columns df)"
    using read_dates_InrD [OF g5] keeps_columns [OF k3, of "''referral_at_local''"] by simp
  ultimately show ?thesis by simp
qed

lemma flag_transaction_ok:
  assumes "''transaction_id'' \<in> set (columns df)" "''transaction_status'' \<in> set (columns df)"
    "''transaction_type'' \<in> set (columns df)" "''transaction_at_local'' \<in> set (columns df)"
    "''referral_at_local'' \<in> set (columns df)"
    and "naive_dates e df ''transaction_at_local''" "naive_dates e df ''referral_at_local''"
  shows "\<exists>d. flag_transaction e df = Inr d"
proof -
  let ?K = "{''has_trans_id'', ''is_trans_paid'', ''is_trans_new'', ''tx_after_ref''}"
  from assign_ok [OF assms(1)] obtain c1 x1 where
    g1: "getcol df ''transaction_id'' = Inr c1"
    and s1: "setcol df ''has_trans_id'' (map (\<lambda>x. B (\<not> py_isna x \<and> py_str x \<noteq> ''nan'')) c1) = Inr x1"
    by blast
  have k1: "keeps df x1 ?K" using s1 by (rule setcol_keeps) simp
  have "''transaction_status'' \<in> set (columns x1)"
    using assms(2) keeps_columns [OF k1, of "''transaction_status''"] by simp
  from assign_ok [OF this] obtain c2 x2 where
    g2: "getcol x1 ''transaction_status'' = Inr c2"
    and s2: "setcol x1 ''is_trans_paid'' (map (\<lambda>x. B (upper (py_str x) = ''PAID'')) c2) = Inr x2"
    by blast
  have "keeps x1 x2 ?K" using s2 by (rule setcol_keeps) simp
  with k1 have k2: "keeps df x2 ?K" by (rule keeps_trans_same)
  have "''transaction_type'' \<in> set (columns x2)"
    using assms(3) keeps_columns [OF k2, of "''transaction_type''"] by simp
  from assign_ok [OF this] obtain c3 x3 where
    g3: "getcol x2 ''transaction_type'' = Inr c3"
    and s3: "setcol x2 ''is_trans_new'' (map (\<lambda>x. B (upper (py_str x) = ''NEW'')) c3) = Inr x3"
    by blast
  have "keeps x2 x3 ?K" using s3 by (rule setcol_keeps) simp
  with k2 have k3: "keeps df x3 ?K" by (rule keeps_trans_same)
  have c4: "''transaction_at_local'' \<in> set (columns x3)"
    using assms(4) keeps_columns [OF k3, of "''transaction_at_local''"] by simp
  have n4: "naive_dates e x3 ''transaction_at_local''"
    using assms(6) naive_dates_keeps [OF k3, of "''transaction_at_local''" e] by simp
  obtain tx where g4: "read_dates e x3 ''transaction_at_local'' = Inr tx"
    and a4: "\<not> tz_aware tx" and l4: "length (times tx) = length (rows x3)"
    by (rule naive_dates_read [OF n4 c4])
  have c5: "''referral_at_local'' \<in> set (columns x3)"
    using assms(5) keeps_columns [OF k3, of "''referral_at_local''"] by simp
  have n5: "naive_dates e x3 ''referral_at_local''"
    using assms(7) naive_dates_keeps [OF k3, of "''referral_at_local''" e] by simp
  obtain rf where g5: "read_dates e x3 ''referral_at_local'' = Inr rf"
    and a5: "\<not> tz_aware rf" and l5: "length (times rf) = length (rows x3)"
    by (rule naive_dates_read [OF n5 c5])
  let ?bs = "map (\<lambda>(x, y). time_ge x y) (zip (times tx) (times rf))"
  have dg: "dates_ge tx rf = Inr ?bs"
    using a4 a5 by (rule dates_ge_naive)
  have "length (map B ?bs) = length (rows x3)"
    using l4 l5 by simp
  then obtain d where s4: "setcol x3 ''tx_after_ref'' (map B ?bs) = Inr d"
    using setcol_ok by blast
  show ?thesis
    unfolding flag_transaction_def
    by (simp only: g1 s1 g2 s2 g3 s3 g4 g5 dg s4 andthen_Inr) (rule exI, rule refl)
qed

lemma getcol_absent: "k \<notin> set (columns df) \<Longrightarrow> getcol df k = Inl (KeyError k)"
  by (simp add: getcol_def)

lemma read_dates_absent: "k \<notin> set (columns df) \<Longrightarrow> read_dates e df k = Inl (KeyError k)"
  by (simp add: read_dates_def getcol_def)

text \<open>
  With a required column absent, the first read of an absent column raises its
  \<open>KeyError\<close>, in the order of \<open>required_columns\<close>.
\<close>

lemma flag_transaction_KeyError:
  assumes f: "find (\<lambda>k. k \<notin> set (columns df)) required_columns = Some k"
    and n: "naive_dates e df ''transaction_at_local''"
  shows "flag_transaction e df = Inl (KeyError k)"
proof (cases "''transaction_id'' \<in> set (columns df)")
  case False
  with f have k: "k = ''transaction_id''"
    by (simp add: required_columns_def)
  have "getcol df ''transaction_id'' = Inl (KeyError ''transaction_id'')"
    using False by (rule getcol_absent)
  then show ?thesis
    unfolding flag_transaction_def k by (simp only: andthen_Inl)
next
  case p1: True
  let ?K = "{''has_trans_id'', ''is_trans_paid'', ''is_trans_new'', ''tx_after_ref''}"
  from assign_ok [OF p1] obtain c1 x1 where
    g1: "getcol df ''transaction_id'' = Inr c1"
    and s1: "setcol df ''has_trans_id'' (map (\<lambda>x. B (\<not> py_isna x \<and> py_str x \<noteq> ''nan'')) c1) = Inr x1"
    by blast
  have k1: "keeps df x1 ?K" using s1 by (rule setcol_keeps) simp
  show ?thesis
  proof (cases "''transaction_status'' \<in> set (columns df)")
    case False
    with p1 f have k: "k = ''transaction_status''"
      by (simp add: required_columns_def)
    have "''transaction_status'' \<notin> set (columns x1)"
      using False keeps_columns [OF k1, of "''transaction_status''"] by simp
    then have "getcol x1 ''transaction_status'' = Inl (KeyError ''transaction_status'')"
      by (rule getcol_absent)
    then show ?thesis
      unfolding flag_transaction_def k by (simp only: g1 s1 andthen_Inr andthen_Inl)
  next
    case p2: True
    have "''transaction_status'' \<in> set (columns x1)"
      using p2 keeps_columns [OF k1, of "''transaction_status''"] by simp
    from assign_ok [OF this] obtain c2 x2 where
      g2: "getcol x1 ''transaction_status'' = Inr c2"
      and s2: "setcol x1 ''is_trans_paid'' (map (\<lambda>x. B (upper (py_str x) = ''PAID'')) c2) = Inr x2"
      by blast
    have "keeps x1 x2 ?K" using s2 by (rule setcol_keeps) simp
    with k1 have k2: "keeps df x2 ?K" by (rule keeps_trans_same)
    show ?thesis
    proof (cases "''transaction_type'' \<in> set (columns df)")
      case False
      with p1 p2 f have k: "k = ''transaction_type''"
        by (simp add: required_columns_def)
      have "''transaction_type'' \<notin> set (columns x2)"
        using False keeps_columns [OF k2, of "''transaction_type''"] by simp
      then have "getcol x2 ''transaction_type'' = Inl (KeyError ''transaction_type'')"
        by (rule getcol_absent)
      then show ?thesis
        unfolding flag_transaction_def k
        by (simp only: g1 s1 g2 s2 andthen_Inr andthen_Inl)
    next
      case p3: True
      have "''transaction_type'' \<in> set (columns x2)"
        using p3 keeps_columns [OF k2, of "''transaction_type''"] by simp
      from assign_ok [OF this] obtain c3 x3 where
        g3: "getcol x2 ''transaction_type'' = Inr c3"
        and s3: "setcol x2 ''is_trans_new'' (map (\<lambda>x. B (upper (py_str x) = ''NEW'')) c3) = Inr x3"
        by blast
      have "keeps x2 x3 ?K" using s3 by (rule setcol_keeps) simp
      with k2 have k3: "keeps df x3 ?K" by (rule keeps_trans_same)
      show ?thesis
      proof (cases "''transaction_at_local'' \<in> set (columns df)")
        case False
        with p1 p2 p3 f have k: "k = ''transaction_at_local''"
          by (simp add: required_columns_def)
        have "''transaction_at_local'' \<notin> set (columns x3)"
          using False keeps_columns [OF k3, of "''transaction_at_local''"] by simp
        then have "read_dates e x3 ''transaction_at_local''
            = Inl (KeyError ''transaction_at_local'')"
          by (rule read_dates_absent)
        then show ?thesis
          unfolding flag_transaction_def k
          by (simp only: g1 s1 g2 s2 g3 s3 andthen_Inr andthen_Inl)
      next
        case p4: True
        have c4: "''transaction_at_local'' \<in> set (columns x3)"
          using p4 keeps_columns [OF k3, of "''transaction_at_local''"] by simp
        have n4: "naive_dates e x3 ''transaction_at_local''"
          using n naive_dates_keeps [OF k3, of "''transaction_at_local''" e] by simp
        obtain tx where g4: "read_dates e x3 ''transaction_at_local'' = Inr tx"
          by (rule naive_dates_read [OF n4 c4])
        have p5: "''referral_at_local'' \<notin> set (columns df)"
          using p1 p2 p3 p4 f by (simp add: required_columns_def split: if_splits)
        with p1 p2 p3 p4 f have k: "k = ''referral_at_local''"
          by (simp add: required_columns_def)
        have "''referral_at_local'' \<notin> set (columns x3)"
          using p5 keeps_columns [OF k3, of "''referral_at_local''"] by simp
        then have "read_dates e x3 ''referral_at_local''
            = Inl (KeyError ''referral_at_local'')"
          by (rule read_dates_absent)
        then show ?thesis
          unfolding flag_transaction_def k
          by (simp only: g1 s1 g2 s2 g3 s3 g4 andthen_Inr andthen_Inl)
      qed
    qed
  qed
qed

lemma flag_same_month_steps:
  assumes "flag_same_month e df = Inr d"
  obtains x tx rf where
    "setcol_const df ''same_month'' (B False) = Inr x"
    "read_dates e x ''transaction_at_local'' = Inr tx"
    "read_dates e x ''referral_at_local'' = Inr rf"
    "d = x \<or> (\<exists>old vs. getcol x ''same_month'' = Inr old \<and> setcol x ''same_month'' vs = Inr d)"
  using assms unfolding flag_same_month_def
  apply (elim andthenE)
  subgoal premises p for x tx rf
  proof -
    from p(5) have "d = x \<or> (\<exists>old vs. getcol x ''same_month'' = Inr old
        \<and> setcol x ''same_month'' vs = Inr d)"
      by (auto simp: Let_def andthen_Inr_iff split: if_splits)
    with p(1) [OF p(2) p(3) p(4)] show ?thesis .
  qed
  done

lemma flag_same_month_keeps:
  assumes "flag_same_month e df = Inr d" and "''same_month'' \<in> K"
  shows "keeps df d K"
proof -
  from assms(1) obtain x tx rf where
    s: "setcol_const df ''same_month'' (B False) = Inr x"
    and d: "d = x \<or> (\<exists>old vs. getcol x ''same_month'' = Inr old
        \<and> setcol x ''same_month'' vs = Inr d)"
    by (rule flag_same_month_steps)
  have k: "keeps df x K" using s assms(2) by (rule setcol_const_keeps)
  from d show ?thesis
  proof
    assume "d = x"
    with k show ?thesis by simp
  next
    assume "\<exists>old vs. getcol x ''same_month'' = Inr old \<and> setcol x ''same_month'' vs = Inr d"
    then obtain vs where "setcol x ''same_month'' vs = Inr d" by blast
    then have "keeps x d K" using assms(2) by (rule setcol_keeps)
    with k show ?thesis by (rule keeps_trans_same)
  qed
qed

lemma flag_same_month_ok:
  assumes "''transaction_at_local'' \<in> set (columns df)"
    and "''referral_at_local'' \<in> set (columns df)"
    and "naive_dates e df ''transaction_at_local''" "naive_dates e df ''referral_at_local''"
  shows "\<exists>d. flag_same_month e df = Inr d"
proof -
  obtain x where s: "setcol_const df ''same_month'' (B False) = Inr x"
    using setcol_const_ok by blast
  have k: "keeps df x {''same_month''}" using s by (rule setcol_const_keeps) simp
  have c1: "''transaction_at_local'' \<in> set (columns x)"
    using assms(1) keeps_columns [OF k, of "''transaction_at_local''"] by simp
  have n1: "naive_dates e x ''transaction_at_local''"
    using assms(3) naive_dates_keeps [OF k, of "''transaction_at_local''" e] by simp
  obtain tx where g1: "read_dates e x ''transaction_at_local'' = Inr tx"
    and l1: "length (times tx) = length (rows x)"
    by (rule naive_dates_read [OF n1 c1])
  have c2: "''referral_at_local'' \<in> set (columns x)"
    using assms(2) keeps_columns [OF k, of "''referral_at_local''"] by simp
  have n2: "naive_dates e x ''referral_at_local''"
    using assms(4) naive_dates_keeps [OF k, of "''referral_at_local''" e] by simp
  obtain rf where g2: "read_dates e x ''referral_at_local'' = Inr rf"
    and l2: "length (times rf) = length (rows x)"
    by (rule naive_dates_read [OF n2 c2])
  from s have g3: "getcol x ''same_month'' = Inr (replicate (length (rows df)) (B False))"
    by (rule setcol_const_getcol)
  have r: "length (rows x) = length (rows df)"
    using k by (simp add: keeps_def)
  let ?vs = "map (\<lambda>(prev, t, r).
                 (case (t, r) of
                    (Some a, Some b) \<Rightarrow> B (to_period_M e a = to_period_M e b)
                  | _ \<Rightarrow> prev))
               (zip (replicate (length (rows df)) (B False)) (zip (times tx) (times rf)))"
  have "length ?vs = length (rows x)"
    using l1 l2 r by simp
  then obtain d where s2: "setcol x ''same_month'' ?vs = Inr d"
    using setcol_ok by blast
  show ?thesis
  proof (cases "list_ex (\<lambda>m. m)
      (map (\<lambda>(t, r). t \<noteq> None \<and> r \<noteq> None) (zip (times tx) (times rf)))")
    case True
    then show ?thesis
      unfolding flag_same_month_def
      by (simp only: s g1 g2 g3 s2 andthen_Inr Let_def if_True) (rule exI, rule refl)
  next
    case False
    then show ?thesis
      unfolding flag_same_month_def
      by (simp only: s g1 g2 andthen_Inr Let_def if_False) (rule exI, rule refl)
  qed
qed

lemma flag_member_active_keeps:
  assumes "flag_member_active e df = Inr d" and "''is_member_active'' \<in> K"
  shows "keeps df d K"
proof (cases "''referrer_expiry'' \<in> set (columns df)")
  case True
  with assms(1) obtain vs where "setcol df ''is_member_active'' vs = Inr d"
    unfolding flag_member_active_def by (auto simp: andthen_Inr_iff)
  then show ?thesis using assms(2) by (rule setcol_keeps)
next
  case False
  with assms(1) have "setcol_const df ''is_member_active'' (B False) = Inr d"
    unfolding flag_member_active_def by simp
  then show ?thesis using assms(2) by (rule setcol_const_keeps)
qed

lemma flag_member_active_ok:
  assumes "naive_dates e df ''referrer_expiry''"
  shows "\<exists>d. flag_member_active e df = Inr d"
proof (cases "''referrer_expiry'' \<in> set (columns df)")
  case True
  obtain x where g: "read_dates e df ''referrer_expiry'' = Inr x"
    and a: "\<not> tz_aware x" and l: "length (times x) = length (rows df)"
    by (rule naive_dates_read [OF assms True])
  let ?bs = "map (\<lambda>x. time_ge x (Some (now e))) (times x)"
  have dg: "dates_ge_now x (now e) = Inr ?bs"
    using a by (rule dates_ge_now_naive)
  have "length (map B ?bs) = length (rows df)"
    using l by simp
  then obtain d where s: "setcol df ''is_member_active'' (map B ?bs) = Inr d"
    using setcol_ok by blast
  show ?thesis
    unfolding flag_member_active_def
    by (simp only: True if_True g dg s andthen_Inr) (rule exI, rule refl)
next
  case False
  with setcol_const_ok show ?thesis
    unfolding flag_member_active_def by simp
qed

lemma flag_member_active_default:
  assumes "flag_member_active e df = Inr d" and "''referrer_expiry'' \<notin> set (columns df)"
  shows "getcol d ''is_member_active'' = Inr (replicate (length (rows df)) (B False))"
proof -
  from assms have "setcol_const df ''is_member_active'' (B False) = Inr d"
    unfolding flag_member_active_def by simp
  then show ?thesis by (rule setcol_const_getcol)
qed

lemma flag_account_active_keeps:
  assumes "flag_account_active df = Inr d" and "''is_account_active'' \<in> K"
  shows "keeps df d K"
proof (cases "''referrer_deleted'' \<in> set (columns df)")
  case True
  with assms(1) obtain c vs where "setcol df ''is_account_active'' vs = Inr d"
    unfolding flag_account_active_def by (auto simp: andthen_Inr_iff)
  then show ?thesis using assms(2) by (rule setcol_keeps)
next
  case False
  with assms(1) have "setcol_const df ''is_account_active'' (B True) = Inr d"
    unfolding flag_account_active_def by simp
  then show ?thesis using assms(2) by (rule setcol_const_keeps)
qed

lemma flag_account_active_ok: "\<exists>d. flag_account_active df = Inr d"
proof (cases "''referrer_deleted'' \<in> set (columns df)")
  case True
  from assign_ok [OF True, where b = "''is_account_active''" and g = "\<lambda>x. B (eq_bool x False \<or> lower (py_str x) = ''false'')"]
  obtain c x where "getcol df ''referrer_deleted'' = Inr c"
    and "setcol df ''is_account_active'' (map (\<lambda>x. B (eq_bool x False \<or> lower (py_str x) = ''false'')) c) = Inr x"
    by blast
  with True show ?thesis
    unfolding flag_account_active_def by simp
next
  case False
  with setcol_const_ok show ?thesis
    unfolding flag_account_active_def by simp
qed

lemma flag_account_active_default:
  assumes "flag_account_active df = Inr d" and "''referrer_deleted'' \<notin> set (columns df)"
  shows "getcol d ''is_account_active'' = Inr (replicate (length (rows df)) (B True))"
proof -
  from assms have "setcol_const df ''is_account_active'' (B True) = Inr d"
    unfolding flag_account_active_def by simp
  then show ?thesis by (rule setcol_const_getcol)
qed

lemma flag_granted_ok: "\<exists>d. flag_granted df = Inr d"
proof (cases "''is_reward_granted'' \<in> set (columns df)")
  case True
  from assign_ok [OF True, where b = "''is_granted''" and g = "\<lambda>x. B (eq_bool x True \<or> lower (py_str x) = ''true'')"]
  obtain c x where "getcol df ''is_reward_granted'' = Inr c"
    and "setcol df ''is_granted'' (map (\<lambda>x. B (eq_bool x True \<or> lower (py_str x) = ''true'')) c) = Inr x"
    by blast
  with True show ?thesis
    unfolding flag_granted_def by simp
next
  case False
  with setcol_const_ok show ?thesis
    unfolding flag_granted_def by simp
qed

lemma flag_granted_keeps:
  assumes "flag_granted df = Inr d" and "''is_granted'' \<in> K"
  shows "keeps df d K"
proof (cases "''is_reward_granted'' \<in> set (columns df)")
  case True
  with assms(1) obtain c vs where "setcol df ''is_granted'' vs = Inr d"
    unfolding flag_granted_def by (auto simp: andthen_Inr_iff)
  then show ?thesis using assms(2) by (rule setcol_keeps)
next
  case False
  with assms(1) have "setcol_const df ''is_granted'' (B False) = Inr d"
    unfolding flag_granted_def by simp
  then show ?thesis using assms(2) by (rule setcol_const_keeps)
qed

lemma flag_granted_default:
  assumes "flag_granted df = Inr d" and "''is_reward_granted'' \<notin> set (columns df)"
  shows "getcol d ''is_granted'' = Inr (replicate (length (rows df)) (B False))"
proof -
  from assms have "setcol_const df ''is_granted'' (B False) = Inr d"
    unfolding flag_granted_def by simp
  then show ?thesis by (rule setcol_const_getcol)
qed

lemma derive_flags_steps:
  assumes "derive_flags e df = Inr d"
  obtains d1 d2 d3 d4 d5 d6 d7 where
    "fill_reward_value df = Inr d1" "flag_has_reward d1 = Inr d2" "flag_status d2 = Inr d3"
    "flag_transaction e d3 = Inr d4" "flag_same_month e d4 = Inr d5"
    "flag_member_active e d5 = Inr d6" "flag_account_active d6 = Inr d7"
    "flag_granted d7 = Inr d" "convert_dates e d1 = Inr d1"
  using assms unfolding derive_flags_def
  apply (elim andthenE)
  subgoal premises p for d1 d1' d2 d3 d4 d5 d6 d7
  proof -
    from p(3) have q: "d1' = d1" by (rule convert_dates_Inr)
    show ?thesis
      using p(1) [of d1 d2 d3 d4 d5 d6 d7] p(2) p(3) p(4) p(5) p(6) p(7) p(8) p(9) p(10)
      unfolding q by blast
  qed
  done

lemma derived_columns_mem:
  "''reward_value'' \<in> set derived_columns" "''has_reward'' \<in> set derived_columns"
  "''is_success'' \<in> set derived_columns" "''is_pending_or_failed'' \<in> set derived_columns"
  "''has_trans_id'' \<in> set derived_columns" "''is_trans_paid'' \<in> set derived_columns"
  "''is_trans_new'' \<in> set derived_columns" "''tx_after_ref'' \<in> set derived_columns"
  "''same_month'' \<in> set derived_columns" "''is_member_active'' \<in> set derived_columns"
  "''is_account_active'' \<in> set derived_columns" "''is_granted'' \<in> set derived_columns"
  by (simp_all add: derived_columns_def)

lemma derived_columns_not_mem:
  "''transaction_id'' \<notin> set derived_columns" "''transaction_status'' \<notin> set derived_columns"
  "''transaction_type'' \<notin> set derived_columns"
  "''transaction_at_local'' \<notin> set derived_columns"
  "''referral_at_local'' \<notin> set derived_columns" "''status_name'' \<notin> set derived_columns"
  "''referrer_expiry'' \<notin> set derived_columns" "''referrer_deleted'' \<notin> set derived_columns"
  "''is_reward_granted'' \<notin> set derived_columns"
  by (simp_all add: derived_columns_def)

text \<open>
  Every stage of flag derivation writes derived columns only, so every intermediate
  frame keeps the input's other columns and its number of rows.
\<close>

lemma derive_flags_prefixes:
  assumes "fill_reward_value df = Inr d1" "flag_has_reward d1 = Inr d2"
    "flag_status d2 = Inr d3" "flag_transaction e d3 = Inr d4" "flag_same_month e d4 = Inr d5"
    "flag_member_active e d5 = Inr d6" "flag_account_active d6 = Inr d7"
  shows "keeps df d1 (set derived_columns)" "keeps df d2 (set derived_columns)"
    "keeps df d3 (set derived_columns)" "keeps df d4 (set derived_columns)"
    "keeps df d5 (set derived_columns)" "keeps df d6 (set derived_columns)"
    "keeps df d7 (set derived_columns)"
proof -
  note m = derived_columns_mem
  show k1: "keeps df d1 (set derived_columns)"
    using assms(1) m(1) by (rule fill_reward_value_keeps)
  have "keeps d1 d2 (set derived_columns)"
    using assms(2) m(2) by (rule flag_has_reward_keeps)
  with k1 show k2: "keeps df d2 (set derived_columns)" by (rule keeps_trans_same)
  have "keeps d2 d3 (set derived_columns)"
    using assms(3) m(3) m(4) by (rule flag_status_keeps)
  with k2 show k3: "keeps df d3 (set derived_columns)" by (rule keeps_trans_same)
  have "keeps d3 d4 (set derived_columns)"
    using assms(4) m(5) m(6) m(7) m(8) by (rule flag_transaction_keeps)
  with k3 show k4: "keeps df d4 (set derived_columns)" by (rule keeps_trans_same)
  have "keeps d4 d5 (set derived_columns)"
    using assms(5) m(9) by (rule flag_same_month_keeps)
  with k4 show k5: "keeps df d5 (set derived_columns)" by (rule keeps_trans_same)
  have "keeps d5 d6 (set derived_columns)"
    using assms(6) m(10) by (rule flag_member_active_keeps)
  with k5 show k6: "keeps df d6 (set derived_columns)" by (rule keeps_trans_same)
  have "keeps d6 d7 (set derived_columns)"
    using assms(7) m(11) by (rule flag_account_active_keeps)
  with k6 show "keeps df d7 (set derived_columns)" by (rule keeps_trans_same)
qed

lemma derive_flags_requires:
  assumes "derive_flags e df = Inr d" and "k \<in> set required_columns"
  shows "k \<in> set (columns df)"
proof -
  from assms(1) obtain d1 d2 d3 d4 where
    s: "fill_reward_value df = Inr d1" "flag_has_reward d1 = Inr d2" "flag_status d2 = Inr d3"
    and t: "flag_transaction e d3 = Inr d4"
    by (rule derive_flags_steps)
  let ?K = "{''reward_value'', ''has_reward'', ''is_success'', ''is_pending_or_failed''}"
  have "keeps df d1 ?K" using s(1) by (rule fill_reward_value_keeps) simp
  moreover have "keeps d1 d2 ?K" using s(2) by (rule flag_has_reward_keeps) simp
  ultimately have "keeps df d2 ?K" by (rule keeps_trans_same)
  moreover have "keeps d2 d3 ?K" using s(3) by (rule flag_status_keeps) simp_all
  ultimately have k: "keeps df d3 ?K" by (rule keeps_trans_same)
  from flag_transaction_requires [OF t]
  have r: "''transaction_id'' \<in> set (columns d3)" "''transaction_status'' \<in> set (columns d3)"
    "''transaction_type'' \<in> set (columns d3)" "''transaction_at_local'' \<in> set (columns d3)"
    "''referral_at_local'' \<in> set (columns d3)"
    by simp_all
  have "''transaction_id'' \<in> set (columns df)"
    using r(1) keeps_columns [OF k, of "''transaction_id''"] by simp
  moreover have "''transaction_status'' \<in> set (columns df)"
    using r(2) keeps_columns [OF k, of "''transaction_status''"] by simp
  moreover have "''transaction_type'' \<in> set (columns df)"
    using r(3) keeps_columns [OF k, of "''transaction_type''"] by simp
  moreover have "''transaction_at_local'' \<in> set (columns df)"
    using r(4) keeps_columns [OF k, of "''transaction_at_local''"] by simp
  moreover have "''referral_at_local'' \<in> set (columns df)"
    using r(5) keeps_columns [OF k, of "''referral_at_local''"] by simp
  ultimately show ?thesis
    using assms(2) unfolding required_columns_def by (simp only: set_simps insert_iff empty_iff) blast
qed

lemma derive_flags_reward_default:
  assumes "derive_flags e df = Inr d" and "''reward_value'' \<notin> set (columns df)"
  shows "getcol d ''reward_value'' = Inr (replicate (length (rows df)) (N 0))"
    and "getcol d ''has_reward'' = Inr (replicate (length (rows df)) (B False))"
proof -
  from assms(1) obtain d1 d2 d3 d4 d5 d6 d7 where
    s: "fill_reward_value df = Inr d1" "flag_has_reward d1 = Inr d2" "flag_status d2 = Inr d3"
    "flag_transaction e d3 = Inr d4" "flag_same_month e d4 = Inr d5"
    "flag_member_active e d5 = Inr d6" "flag_account_active d6 = Inr d7"
    "flag_granted d7 = Inr d"
    by (rule derive_flags_steps)
  let ?K = "{''is_success'', ''is_pending_or_failed'', ''has_trans_id'', ''is_trans_paid'',
    ''is_trans_new'', ''tx_after_ref'', ''same_month'', ''is_member_active'',
    ''is_account_active'', ''is_granted''}"
  have "keeps d2 d3 ?K" using s(3) by (rule flag_status_keeps) simp_all
  moreover have "keeps d3 d4 ?K" using s(4) by (rule flag_transaction_keeps) simp_all
  ultimately have "keeps d2 d4 ?K" by (rule keeps_trans_same)
  moreover have "keeps d4 d5 ?K" using s(5) by (rule flag_same_month_keeps) simp
  ultimately have "keeps d2 d5 ?K" by (rule keeps_trans_same)
  moreover have "keeps d5 d6 ?K" using s(6) by (rule flag_member_active_keeps) simp
  ultimately have "keeps d2 d6 ?K" by (rule keeps_trans_same)
  moreover have "keeps d6 d7 ?K" using s(7) by (rule flag_account_active_keeps) simp
  ultimately have "keeps d2 d7 ?K" by (rule keeps_trans_same)
  moreover have "keeps d7 d ?K" using s(8) by (rule flag_granted_keeps) simp
  ultimately have k: "keeps d2 d ?K" by (rule keeps_trans_same)
  have k12: "keeps d1 d2 {''has_reward''}" using s(2) by (rule flag_has_reward_keeps) simp
  have g1: "getcol d1 ''reward_value'' = Inr (replicate (length (rows df)) (N 0))"
    using s(1) assms(2) by (rule fill_reward_value_default)
  have g2: "getcol d2 ''has_reward'' = Inr (replicate (length (rows df)) (B False))"
    using s(2) g1 by (rule flag_has_reward_default)
  have "getcol d2 ''reward_value'' = getcol d1 ''reward_value''"
    using k12 by (rule keeps_getcol) simp
  moreover have "getcol d ''reward_value'' = getcol d2 ''reward_value''"
    using k by (rule keeps_getcol) simp
  ultimately show "getcol d ''reward_value'' = Inr (replicate (length (rows df)) (N 0))"
    using g1 by simp
  have "getcol d ''has_reward'' = getcol d2 ''has_reward''"
    using k by (rule keeps_getcol) simp
  with g2 show "getcol d ''has_reward'' = Inr (replicate (length (rows df)) (B False))"
    by simp
qed

lemma derive_flags_user_defaults:
  assumes "derive_flags e df = Inr d"
  shows "''referrer_expiry'' \<notin> set (columns df) \<Longrightarrow>
      getcol d ''is_member_active'' = Inr (replicate (length (rows df)) (B False))"
    and "''referrer_deleted'' \<notin> set (columns df) \<Longrightarrow>
      getcol d ''is_account_active'' = Inr (replicate (length (rows df)) (B True))"
    and "''is_reward_granted'' \<notin> set (columns df) \<Longrightarrow>
      getcol d ''is_granted'' = Inr (replicate (length (rows df)) (B False))"
proof -
  from assms(1) obtain d1 d2 d3 d4 d5 d6 d7 where
    s: "fill_reward_value df = Inr d1" "flag_has_reward d1 = Inr d2" "flag_status d2 = Inr d3"
    "flag_transaction e d3 = Inr d4" "flag_same_month e d4 = Inr d5"
    "flag_member_active e d5 = Inr d6" "flag_account_active d6 = Inr d7"
    and g: "flag_granted d7 = Inr d"
    by (rule derive_flags_steps)
  note p = derive_flags_prefixes [OF s]
  note n = derived_columns_not_mem
  have k7: "keeps d7 d {''is_granted''}" using g by (rule flag_granted_keeps) simp
  have k67: "keeps d6 d7 {''is_account_active''}"
    using s(7) by (rule flag_account_active_keeps) simp
  {
    assume a: "''referrer_expiry'' \<notin> set (columns df)"
    have "''referrer_expiry'' \<notin> set (columns d5)"
      using a keeps_columns [OF p(5) n(7)] by simp
    with s(6) have "getcol d6 ''is_member_active'' = Inr (replicate (length (rows d5)) (B False))"
      by (rule flag_member_active_default)
    moreover have "getcol d7 ''is_member_active'' = getcol d6 ''is_member_active''"
      using k67 by (rule keeps_getcol) simp
    moreover have "getcol d ''is_member_active'' = getcol d7 ''is_member_active''"
      using k7 by (rule keeps_getcol) simp
    ultimately show "getcol d ''is_member_active'' = Inr (replicate (length (rows df)) (B False))"
      using keeps_rows [OF p(5)] by simp
  }
  {
    assume a: "''referrer_deleted'' \<notin> set (columns df)"
    have "''referrer_deleted'' \<notin> set (columns d6)"
      using a keeps_columns [OF p(6) n(8)] by simp
    with s(7) have "getcol d7 ''is_account_active'' = Inr (replicate (length (rows d6)) (B True))"
      by (rule flag_account_active_default)
    moreover have "getcol d ''is_account_active'' = getcol d7 ''is_account_active''"
      using k7 by (rule keeps_getcol) simp
    ultimately show "getcol d ''is_account_active'' = Inr (replicate (length (rows df)) (B True))"
      using keeps_rows [OF p(6)] by simp
  }
  {
    assume a: "''is_reward_granted'' \<notin> set (columns df)"
    have "''is_reward_granted'' \<notin> set (columns d7)"
      using a keeps_columns [OF p(7) n(9)] by simp
    with g have "getcol d ''is_granted'' = Inr (replicate (length (rows d7)) (B False))"
      by (rule flag_granted_default)
    then show "getcol d ''is_granted'' = Inr (replicate (length (rows df)) (B False))"
      using keeps_rows [OF p(7)] by simp
  }
qed

lemma required_not_derived: "k \<in> set required_columns \<Longrightarrow> k \<notin> set derived_columns"
proof -
  have "list_all (\<lambda>k. k \<notin> set derived_columns) required_columns"
    by code_simp
  then show "k \<in> set required_columns \<Longrightarrow> k \<notin> set derived_columns"
    unfolding list_all_iff by (rule bspec)
qed

lemma derive_flags_to_status:
  assumes "''status_name'' \<in> set (columns df)"
    and "\<forall>c. getcol df ''reward_value'' = Inr c \<longrightarrow> (\<forall>x\<in>set c. \<forall>s. x \<noteq> S s)"
    and "naive_dates e df ''referral_at_local''" "naive_dates e df ''transaction_at_local''"
    "naive_dates e df ''referrer_expiry''"
  obtains d1 d2 d3 where
    "fill_reward_value df = Inr d1" "convert_dates e d1 = Inr d1" "flag_has_reward d1 = Inr d2"
    "flag_status d2 = Inr d3" "keeps df d3 (set derived_columns)"
proof -
  note m = derived_columns_mem
  note n = derived_columns_not_mem
  obtain d1 where s1: "fill_reward_value df = Inr d1"
    using fill_reward_value_ok by blast
  have k1: "keeps df d1 (set derived_columns)"
    using s1 m(1) by (rule fill_reward_value_keeps)
  have "naive_dates e d1 ''referral_at_local''" "naive_dates e d1 ''transaction_at_local''"
    "naive_dates e d1 ''referrer_expiry''"
    using assms(3-5) naive_dates_keeps [OF k1 n(5)] naive_dates_keeps [OF k1 n(4)]
      naive_dates_keeps [OF k1 n(7)]
    by simp_all
  then have c1: "convert_dates e d1 = Inr d1"
    by (rule convert_dates_ok)
  from fill_reward_value_cells [OF s1 assms(2)] obtain c where
    "getcol d1 ''reward_value'' = Inr c" and "\<forall>x\<in>set c. \<forall>s. x \<noteq> S s"
    by blast
  then obtain d2 where s2: "flag_has_reward d1 = Inr d2"
    using flag_has_reward_ok by blast
  have "keeps d1 d2 (set derived_columns)"
    using s2 m(2) by (rule flag_has_reward_keeps)
  with k1 have k2: "keeps df d2 (set derived_columns)" by (rule keeps_trans_same)
  have "''status_name'' \<in> set (columns d2)"
    using assms(1) keeps_columns [OF k2 n(6)] by simp
  then obtain d3 where s3: "flag_status d2 = Inr d3"
    using flag_status_ok by blast
  have "keeps d2 d3 (set derived_columns)"
    using s3 m(3) m(4) by (rule flag_status_keeps)
  with k2 have k3: "keeps df d3 (set derived_columns)" by (rule keeps_trans_same)
  from s1 c1 s2 s3 k3 show ?thesis by (rule that)
qed

lemma derive_flags_ok:
  assumes "set required_columns \<subseteq> set (columns df)"
    and "''status_name'' \<in> set (columns df)"
    and "\<forall>c. getcol df ''reward_value'' = Inr c \<longrightarrow> (\<forall>x\<in>set c. \<forall>s. x \<noteq> S s)"
    and "naive_dates e df ''referral_at_local''" "naive_dates e df ''transaction_at_local''"
    "naive_dates e df ''referrer_expiry''"
  shows "\<exists>d. derive_flags e df = Inr d"
proof -
  note m = derived_columns_mem
  note n = derived_columns_not_mem
  from assms(1) have r: "''transaction_id'' \<in> set (columns df)"
    "''transaction_status'' \<in> set (columns df)" "''transaction_type'' \<in> set (columns df)"
    "''transaction_at_local'' \<in> set (columns df)" "''referral_at_local'' \<in> set (columns df)"
    by (simp_all add: required_columns_def)
  obtain d1 d2 d3 where s1: "fill_reward_value df = Inr d1"
    and c1: "convert_dates e d1 = Inr d1" and s2: "flag_has_reward d1 = Inr d2"
    and s3: "flag_status d2 = Inr d3" and k3: "keeps df d3 (set derived_columns)"
    by (rule derive_flags_to_status [OF assms(2-6)])
  have "''transaction_id'' \<in> set (columns d3)" "''transaction_status'' \<in> set (columns d3)"
    "''transaction_type'' \<in> set (columns d3)" "''transaction_at_local'' \<in> set (columns d3)"
    "''referral_at_local'' \<in> set (columns d3)"
    using r keeps_columns [OF k3 n(1)] keeps_columns [OF k3 n(2)] keeps_columns [OF k3 n(3)]
      keeps_columns [OF k3 n(4)] keeps_columns [OF k3 n(5)]
    by simp_all
  moreover have "naive_dates e d3 ''transaction_at_local''"
    "naive_dates e d3 ''referral_at_local''"
    using assms(4,5) naive_dates_keeps [OF k3 n(4)] naive_dates_keeps [OF k3 n(5)]
    by simp_all
  ultimately obtain d4 where s4: "flag_transaction e d3 = Inr d4"
    using flag_transaction_ok by blast
  have "keeps d3 d4 (set derived_columns)"
    using s4 m(5) m(6) m(7) m(8) by (rule flag_transaction_keeps)
  with k3 have k4: "keeps df d4 (set derived_columns)" by (rule keeps_trans_same)
  have "''transaction_at_local'' \<in> set (columns d4)" "''referral_at_local'' \<in> set (columns d4)"
    using r keeps_columns [OF k4 n(4)] keeps_columns [OF k4 n(5)] by simp_all
  moreover have "naive_dates e d4 ''transaction_at_local''"
    "naive_dates e d4 ''referral_at_local''"
    using assms(4,5) naive_dates_keeps [OF k4 n(4)] naive_dates_keeps [OF k4 n(5)]
    by simp_all
  ultimately obtain d5 where s5: "flag_same_month e d4 = Inr d5"
    using flag_same_month_ok by blast
  have "keeps d4 d5 (set derived_columns)"
    using s5 m(9) by (rule flag_same_month_keeps)
  with k4 have k5: "keeps df d5 (set derived_columns)" by (rule keeps_trans_same)
  have "naive_dates e d5 ''referrer_expiry''"
    using assms(6) naive_dates_keeps [OF k5 n(7)] by simp
  then obtain d6 where s6: "flag_member_active e d5 = Inr d6"
    using flag_member_active_ok by blast
  obtain d7 where s7: "flag_account_active d6 = Inr d7"
    using flag_account_active_ok by blast
  obtain d where s8: "flag_granted d7 = Inr d"
    using flag_granted_ok by blast
  show ?thesis
    unfolding derive_flags_def
    by (simp only: s1 c1 s2 s3 s4 s5 s6 s7 s8 andthen_Inr) (rule exI, rule refl)
qed

lemma derive_flags_KeyError:
  assumes f: "find (\<lambda>k. k \<notin> set (columns df)) required_columns = Some k"
    and "''status_name'' \<in> set (columns df)"
    and "\<forall>c. getcol df ''reward_value'' = Inr c \<longrightarrow> (\<forall>x\<in>set c. \<forall>s. x \<noteq> S s)"
    and "naive_dates e df ''referral_at_local''" "naive_dates e df ''transaction_at_local''"
    "naive_dates e df ''referrer_expiry''"
  shows "derive_flags e df = Inl (KeyError k)"
proof -
  note n = derived_columns_not_mem
  obtain d1 d2 d3 where s1: "fill_reward_value df = Inr d1"
    and c1: "convert_dates e d1 = Inr d1" and s2: "flag_has_reward d1 = Inr d2"
    and s3: "flag_status d2 = Inr d3" and k3: "keeps df d3 (set derived_columns)"
    by (rule derive_flags_to_status [OF assms(2-6)])
  have "find (\<lambda>k. k \<notin> set (columns d3)) required_columns
      = find (\<lambda>k. k \<notin> set (columns df)) required_columns"
  proof (rule find_cong [OF refl])
    fix x
    assume "x \<in> set required_columns"
    then have "x \<notin> set derived_columns" by (rule required_not_derived)
    with k3 have "x \<in> set (columns d3) \<longleftrightarrow> x \<in> set (columns df)"
      by (rule keeps_columns)
    then show "(x \<notin> set (columns d3)) = (x \<notin> set (columns df))" by simp
  qed
  with f have f3: "find (\<lambda>k. k \<notin> set (columns d3)) required_columns = Some k"
    by simp
  have n3: "naive_dates e d3 ''transaction_at_local''"
    using assms(5) naive_dates_keeps [OF k3 n(4)] by simp
  have s4: "flag_transaction e d3 = Inl (KeyError k)"
    using f3 n3 by (rule flag_transaction_KeyError)
  show ?thesis
    unfolding derive_flags_def
    by (simp only: s1 c1 s2 s3 s4 andthen_Inr andthen_Inl)
qed

lemma default_status_name_unknown:
  assumes "''status_name'' \<notin> set (columns df)"
  shows "andthen (default_status_name df) (\<lambda>d. getcol d ''status_name'')
    = Inr (replicate (length (rows df)) (S ''Unknown''))"
proof -
  obtain d where d: "setcol_const df ''status_name'' (S ''Unknown'') = Inr d"
    using setcol_const_ok by blast
  then have "getcol d ''status_name'' = Inr (replicate (length (rows df)) (S ''Unknown''))"
    by (rule setcol_const_getcol)
  with d assms show ?thesis
    unfolding default_status_name_def by simp
qed

text \<open>
  Claim C8, as amended. Flag derivation fills a default and goes on when one of the
  columns \<open>reward_value\<close> (0, so \<open>has_reward\<close> is false), \<open>status_name\<close> (\<open>Unknown\<close>),
  \<open>referrer_expiry\<close> (member not active), \<open>referrer_deleted\<close> (account active) or
  \<open>is_reward_granted\<close> (not granted) is absent: with the five columns
  \<open>transaction_id\<close>, \<open>transaction_status\<close>, \<open>transaction_type\<close>, \<open>transaction_at_local\<close>
  and \<open>referral_at_local\<close> present, a status name present, no text in \<open>reward_value\<close>
  and date columns that convert to times without a zone, it returns the frame with its
  flags. Those five columns have no default: when one of them is absent, flag derivation
  raises, and under the same conditions on the other columns the exception is the
  \<open>KeyError\<close> of the first absent one of the five, in the order given.
\<close>

theorem derive_flags_defaults:
  "(k \<in> set required_columns \<and> k \<notin> set (columns df) \<longrightarrow> (\<exists>x. derive_flags e df = Inl x))
   \<and> (find (\<lambda>k. k \<notin> set (columns df)) required_columns = Some k
        \<and> ''status_name'' \<in> set (columns df)
        \<and> (\<forall>c. getcol df ''reward_value'' = Inr c \<longrightarrow> (\<forall>x\<in>set c. \<forall>s. x \<noteq> S s))
        \<and> naive_dates e df ''referral_at_local''
        \<and> naive_dates e df ''transaction_at_local''
        \<and> naive_dates e df ''referrer_expiry''
      \<longrightarrow> derive_flags e df = Inl (KeyError k))
   \<and> (derive_flags e df = Inr d \<and> ''reward_value'' \<notin> set (columns df) \<longrightarrow>
        getcol d ''reward_value'' = Inr (replicate (length (rows df)) (N 0))
        \<and> getcol d ''has_reward'' = Inr (replicate (length (rows df)) (B False)))
   \<and> (derive_flags e df = Inr d \<and> ''referrer_expiry'' \<notin> set (columns df) \<longrightarrow>
        getcol d ''is_member_active'' = Inr (replicate (length (rows df)) (B False)))
   \<and> (derive_flags e df = Inr d \<and> ''referrer_deleted'' \<notin> set (columns df) \<longrightarrow>
        getcol d ''is_account_active'' = Inr (replicate (length (rows df)) (B True)))
   \<and> (derive_flags e df = Inr d \<and> ''is_reward_granted'' \<notin> set (columns df) \<longrightarrow>
        getcol d ''is_granted'' = Inr (replicate (length (rows df)) (B False)))
   \<and> (''status_name'' \<notin> set (columns df) \<longrightarrow>
        andthen (default_status_name df) (\<lambda>d. getcol d ''status_name'')
          = Inr (replicate (length (rows df)) (S ''Unknown'')))
   \<and> (set required_columns \<subseteq> set (columns df) \<and> ''status_name'' \<in> set (columns df)
        \<and> (\<forall>c. getcol df ''reward_value'' = Inr c \<longrightarrow> (\<forall>x\<in>set c. \<forall>s. x \<noteq> S s))
        \<and> naive_dates e df ''referral_at_local''
        \<and> naive_dates e df ''transaction_at_local''
        \<and> naive_dates e df ''referrer_expiry''
      \<longrightarrow> (\<exists>d. derive_flags e df = Inr d))"
proof -
  have 1: "k \<in> set required_columns \<and> k \<notin> set (columns df)
      \<longrightarrow> (\<exists>x. derive_flags e df = Inl x)"
  proof (cases "derive_flags e df")
    case (Inl x)
    then show ?thesis by simp
  next
    case (Inr d')
    then show ?thesis using derive_flags_requires [of e df d' k] by blast
  qed
  have 8: "find (\<lambda>k. k \<notin> set (columns df)) required_columns = Some k
        \<and> ''status_name'' \<in> set (columns df)
        \<and> (\<forall>c. getcol df ''reward_value'' = Inr c \<longrightarrow> (\<forall>x\<in>set c. \<forall>s. x \<noteq> S s))
        \<and> naive_dates e df ''referral_at_local''
        \<and> naive_dates e df ''transaction_at_local''
        \<and> naive_dates e df ''referrer_expiry''
      \<longrightarrow> derive_flags e df = Inl (KeyError k)"
  proof (intro impI, elim conjE)
    assume "find (\<lambda>k. k \<notin> set (columns df)) required_columns = Some k"
      "''status_name'' \<in> set (columns df)"
      "\<forall>c. getcol df ''reward_value'' = Inr c \<longrightarrow> (\<forall>x\<in>set c. \<forall>s. x \<noteq> S s)"
      "naive_dates e df ''referral_at_local''"
      "naive_dates e df ''transaction_at_local''"
      "naive_dates e df ''referrer_expiry''"
    then show "derive_flags e df = Inl (KeyError k)"
      by (rule derive_flags_KeyError)
  qed
  have 2: "derive_flags e df = Inr d \<and> ''reward_value'' \<notin> set (columns df) \<longrightarrow>
        getcol d ''reward_value'' = Inr (replicate (length (rows df)) (N 0))
        \<and> getcol d ''has_reward'' = Inr (replicate (length (rows df)) (B False))"
    using derive_flags_reward_default [of e df d] by blast
  have 3: "derive_flags e df = Inr d \<and> ''referrer_expiry'' \<notin> set (columns df) \<longrightarrow>
        getcol d ''is_member_active'' = Inr (replicate (length (rows df)) (B False))"
    using derive_flags_user_defaults(1) [of e df d] by blast
  have 4: "derive_flags e df = Inr d \<and> ''referrer_deleted'' \<notin> set (columns df) \<longrightarrow>
        getcol d ''is_account_active'' = Inr (replicate (length (rows df)) (B True))"
    using derive_flags_user_defaults(2) [of e df d] by blast
  have 5: "derive_flags e df = Inr d \<and> ''is_reward_granted'' \<notin> set (columns df) \<longrightarrow>
        getcol d ''is_granted'' = Inr (replicate (length (rows df)) (B False))"
    using derive_flags_user_defaults(3) [of e df d] by blast
  have 6: "''status_name'' \<notin> set (columns df) \<longrightarrow>
        andthen (default_status_name df) (\<lambda>d. getcol d ''status_name'')
          = Inr (replicate (length (rows df)) (S ''Unknown''))"
    using default_status_name_unknown [of df] by blast
  have 7: "set required_columns \<subseteq> set (columns df) \<and> ''status_name'' \<in> set (columns df)
        \<and> (\<forall>c. getcol df ''reward_value'' = Inr c \<longrightarrow> (\<forall>x\<in>set c. \<forall>s. x \<noteq> S s))
        \<and> naive_dates e df ''referral_at_local''
        \<and> naive_dates e df ''transaction_at_local''
        \<and> naive_dates e df ''referrer_expiry''
      \<longrightarrow> (\<exists>d. derive_flags e df = Inr d)"
  proof (intro impI, elim conjE)
    assume "set required_columns \<subseteq> set (columns df)"
      "''status_name'' \<in> set (columns df)"
      "\<forall>c. getcol df ''reward_value'' = Inr c \<longrightarrow> (\<forall>x\<in>set c. \<forall>s. x \<noteq> S s)"
      "naive_dates e df ''referral_at_local''"
      "naive_dates e df ''transaction_at_local''"
      "naive_dates e df ''referrer_expiry''"
    then show "\<exists>d. derive_flags e df = Inr d"
      by (rule derive_flags_ok)
  qed
  show ?thesis
    by (intro conjI) (rule 1, rule 8, rule 2, rule 3, rule 4, rule 5, rule 6, rule 7)
qed

lemma example_frames:
  "''transaction_id'' \<in> set required_columns"
  "''transaction_id'' \<notin> set (columns example_cleaned_no_transactions)"
  "set required_columns \<subseteq> set (columns example_ready)"
  "''status_name'' \<in> set (columns example_ready)"
  "''reward_value'' \<notin> set (columns example_ready)"
  "''referrer_expiry'' \<notin> set (columns example_ready)"
  "''referrer_deleted'' \<notin> set (columns example_ready)"
  "''is_reward_granted'' \<notin> set (columns example_ready)"
  "''status_name'' \<notin> set (columns example_cleaned)"
  "naive_dates example_env example_ready ''referral_at_local''"
  "naive_dates example_env example_ready ''transaction_at_local''"
  "naive_dates example_env example_ready ''referrer_expiry''"
  by code_simp+

lemma example_status_frames:
  "find (\<lambda>k. k \<notin> set (columns example_status_no_transactions)) required_columns
     = Some ''transaction_id''"
  "''status_name'' \<in> set (columns example_status_no_transactions)"
  "''reward_value'' \<notin> set (columns example_status_no_transactions)"
  "naive_dates example_env example_status_no_transactions ''referral_at_local''"
  "naive_dates example_env example_status_no_transactions ''transaction_at_local''"
  "naive_dates example_env example_status_no_transactions ''referrer_expiry''"
  by code_simp+

lemma example_frame_rows:
  "length (rows example_ready) = 1" "length (rows example_cleaned) = 1"
  by (simp_all add: example_ready_def example_cleaned_def)

theorem derive_flags_defaults_witness:
  "''transaction_id'' \<in> set required_columns
   \<and> ''transaction_id'' \<notin> set (columns example_cleaned_no_transactions)
   \<and> (\<exists>x. derive_flags example_env example_cleaned_no_transactions = Inl x)
   \<and> find (\<lambda>k. k \<notin> set (columns example_status_no_transactions)) required_columns
       = Some ''transaction_id''
   \<and> ''status_name'' \<in> set (columns example_status_no_transactions)
   \<and> naive_dates example_env example_status_no_transactions ''referral_at_local''
   \<and> naive_dates example_env example_status_no_transactions ''transaction_at_local''
   \<and> naive_dates example_env example_status_no_transactions ''referrer_expiry''
   \<and> derive_flags example_env example_status_no_transactions
       = Inl (KeyError ''transaction_id'')
   \<and> set required_columns \<subseteq> set (columns example_ready)
   \<and> ''status_name'' \<in> set (columns example_ready)
   \<and> naive_dates example_env example_ready ''referral_at_local''
   \<and> naive_dates example_env example_ready ''transaction_at_local''
   \<and> naive_dates example_env example_ready ''referrer_expiry''
   \<and> ''reward_value'' \<notin> set (columns example_ready)
   \<and> ''referrer_expiry'' \<notin> set (columns example_ready)
   \<and> ''referrer_deleted'' \<notin> set (columns example_ready)
   \<and> ''is_reward_granted'' \<notin> set (columns example_ready)
   \<and> andthen (derive_flags example_env example_ready) (\<lambda>d. getcol d ''reward_value'')
       = Inr [N 0]
   \<and> andthen (derive_flags example_env example_ready) (\<lambda>d. getcol d ''has_reward'')
       = Inr [B False]
   \<and> andthen (derive_flags example_env example_ready) (\<lambda>d. getcol d ''is_member_active'')
       = Inr [B False]
   \<and> andthen (derive_flags example_env example_ready) (\<lambda>d. getcol d ''is_account_active'')
       = Inr [B True]
   \<and> andthen (derive_flags example_env example_ready) (\<lambda>d. getcol d ''is_granted'')
       = Inr [B False]
   \<and> ''status_name'' \<notin> set (columns example_cleaned)
   \<and> andthen (default_status_name example_cleaned) (\<lambda>d. getcol d ''status_name'')
       = Inr [S ''Unknown'']"
proof -
  note f = example_frames
  note g = example_status_frames
  have nr: "\<forall>c. getcol example_ready ''reward_value'' = Inr c
      \<longrightarrow> (\<forall>x\<in>set c. \<forall>s. x \<noteq> S s)"
    using f(5) by (simp add: getcol_def)
  have ns: "\<forall>c. getcol example_status_no_transactions ''reward_value'' = Inr c
      \<longrightarrow> (\<forall>x\<in>set c. \<forall>s. x \<noteq> S s)"
    using g(3) by (simp add: getcol_def)
  have a: "\<exists>x. derive_flags example_env example_cleaned_no_transactions = Inl x"
    using derive_flags_defaults
      [of "''transaction_id''" example_cleaned_no_transactions example_env] f(1) f(2)
    by blast
  have h: "derive_flags example_env example_status_no_transactions
      = Inl (KeyError ''transaction_id'')"
    using derive_flags_defaults
      [of "''transaction_id''" example_status_no_transactions example_env]
      g(1) g(2) ns g(4) g(5) g(6)
    by blast
  obtain d where d: "derive_flags example_env example_ready = Inr d"
    using derive_flags_defaults [of "''transaction_id''" example_ready example_env]
      f(3) f(4) nr f(10) f(11) f(12)
    by blast
  note t = derive_flags_defaults [of "''transaction_id''" example_ready example_env d]
  have b: "getcol d ''reward_value'' = Inr [N 0]" "getcol d ''has_reward'' = Inr [B False]"
    "getcol d ''is_member_active'' = Inr [B False]"
    "getcol d ''is_account_active'' = Inr [B True]"
    "getcol d ''is_granted'' = Inr [B False]"
    using t d f(5) f(6) f(7) f(8) by (simp_all add: example_frame_rows)
  have c: "andthen (default_status_name example_cleaned) (\<lambda>d. getcol d ''status_name'')
       = Inr [S ''Unknown'']"
    using derive_flags_defaults [of "''transaction_id''" example_cleaned example_env] f(9)
    by (simp add: example_frame_rows)
  show ?thesis
    using f g a h b c by (simp add: d)
qed

text \<open>
  The condition on the date columns is needed: a \<open>referrer_expiry\<close> column that carries
  a zone cannot be compared with today's date, and flag derivation raises \<open>TypeError\<close>.
\<close>

lemma zoned_expiry_raises:
  "row_count (derive_flags example_env example_zoned_expiry) = Inl TypeError"
  by code_simp

text \<open>
  Claim C8 as stated fails for the transaction columns: on a cleaned table without them
  (the transaction file was absent) the run raises \<open>KeyError\<close> at the first read of
  \<open>transaction_id\<close>.
\<close>

theorem missing_transaction_columns_raise:
  "row_count (fraud_check example_env example_cleaned_no_transactions None None)
     = Inl (KeyError ''transaction_id'')"
  by code_simp


end
